theory Spec2Isabelle
  imports Complex_Main "HOL-Library.Word"
begin

section \<open>Strings\<close>

text \<open>
  A JavaScript string is a sequence of 16-bit code units. Literals of the source are
  written with \<open>js\<close>, which embeds an 8-bit character list.
\<close>

type_synonym jschar = "16 word"
type_synonym jsstring = "jschar list"

definition js :: "string \<Rightarrow> jsstring" where
  "js s = map of_char s"

section \<open>The email generation hook (hooks/useEmailGeneration.ts)\<close>

subsection \<open>Data\<close>

datatype toast_variant = default_variant | destructive

record toast =
  title :: jsstring
  description :: jsstring
  variant :: toast_variant

text \<open>The fields of a browser \<open>File\<close> that the hook reads.\<close>

record File =
  file_name :: jsstring
  file_type :: jsstring
  file_size :: nat

datatype api_status = complete | processing | failed

text \<open>
  \<open>EmailGenerationResponse\<close> of types/api.ts. The hook stores the decoded body
  without reading it, and the reveal effects read only \<open>status\<close>; the drafts, the
  aggregation and the metadata are left out. \<open>obj_ref\<close> is the identity of the decoded
  object: React compares effect dependencies by reference, and every
  \<open>response.json()\<close> yields a fresh object.
\<close>

record EmailGenerationResponse =
  obj_ref :: nat
  request_id :: jsstring
  status :: api_status

text \<open>
  A thrown value: an \<open>Error\<close> object with its message (\<open>TypeError\<close> of a failed fetch,
  the \<open>AbortError\<close> of an aborted one, \<open>SyntaxError\<close> of a malformed body, the
  \<open>Error\<close> the hook throws itself), or any other value.
\<close>

datatype thrown = ErrorObject jsstring | OtherValue

text \<open>
  A timer handle: never created, waiting until a due time (milliseconds of the
  event-loop clock), cancelled by \<open>clearTimeout\<close>/\<open>clearInterval\<close>, or run.
\<close>

datatype timer = NotSet | Pending nat | Cleared | Fired

text \<open>
  The control point of one \<open>handleGenerate\<close> call that passed validation: suspended at
  \<open>await responsePromise\<close>, suspended at \<open>await response.json()\<close>, finished through
  the end of the \<open>try\<close> block, or finished through \<open>catch\<close>.
\<close>

datatype control = AwaitFetch | AwaitJson | Completed | Caught

text \<open>The local variables of one such call (its closure).\<close>

record call =
  startTime :: int
  progressInterval :: timer
  timeoutId :: timer
  completeTimer :: timer
  aborted :: bool
  pc :: control

text \<open>
  The hook's five state cells, the two clocks, the calls in flight, and what the hook
  emitted: toasts, every value passed to \<open>setProgress\<close>, every form posted with
  \<open>fetch\<close>. \<open>clock\<close> is the event loop's clock, which drives the timers and only
  advances; \<open>wall\<close> is what \<open>Date.now()\<close> returns, the system's wall clock, which
  advances with time and can be set, forwards or backwards.
\<close>

record world =
  jobUrl :: jsstring
  resume :: "File option"
  isGenerating :: bool
  result :: "EmailGenerationResponse option"
  progress :: rat
  clock :: nat
  wall :: int
  calls :: "call list"
  toasts :: "toast list"
  progress_log :: "rat list"
  fetch_log :: "(jsstring \<times> File) list"

subsection \<open>Configuration\<close>

definition REQUEST_TIMEOUT :: nat where "REQUEST_TIMEOUT = 120000"
definition PROGRESS_UPDATE_INTERVAL :: nat where "PROGRESS_UPDATE_INTERVAL = 500"
definition ESTIMATED_PROCESSING_TIME :: rat where "ESTIMATED_PROCESSING_TIME = 45000"

definition PREPARE :: rat where "PREPARE = 5"
definition SEND :: rat where "SEND = 10"
definition SEND_COMPLETE :: rat where "SEND_COMPLETE = 20"
definition PROCESSING_START :: rat where "PROCESSING_START = 20"
definition PROCESSING_END :: rat where "PROCESSING_END = 80"
definition RESPONSE_RECEIVED :: rat where "RESPONSE_RECEIVED = 85"
definition PARSING :: rat where "PARSING = 90"
definition PRE_COMPLETE :: rat where "PRE_COMPLETE = 95"
definition COMPLETE :: rat where "COMPLETE = 100"

subsection \<open>State setters and emitted effects\<close>

definition setProgress :: "rat \<Rightarrow> world \<Rightarrow> world" where
  "setProgress v w = w\<lparr>progress := v, progress_log := progress_log w @ [v]\<rparr>"

definition emit_toast :: "toast \<Rightarrow> world \<Rightarrow> world" where
  "emit_toast t w = w\<lparr>toasts := toasts w @ [t]\<rparr>"

subsection \<open>handleFileChange\<close>

definition validTypes :: "jsstring list" where
  "validTypes =
     [js ''application/pdf'',
      js ''application/vnd.openxmlformats-officedocument.wordprocessingml.document'']"

definition invalid_type_toast :: toast where
  "invalid_type_toast =
     \<lparr>title = js ''Invalid file type'',
      description = js ''Please upload a PDF or DOCX file'',
      variant = destructive\<rparr>"

definition too_large_toast :: toast where
  "too_large_toast =
     \<lparr>title = js ''File too large'',
      description = js ''Maximum file size is 20MB'',
      variant = destructive\<rparr>"

text \<open>The argument is \<open>e.target.files?.[0]\<close>: \<open>None\<close> when no file was picked.\<close>

definition handleFileChange :: "File option \<Rightarrow> world \<Rightarrow> world" where
  "handleFileChange picked w =
     (case picked of
        None \<Rightarrow> w
      | Some file \<Rightarrow>
          if file_type file \<notin> set validTypes then emit_toast invalid_type_toast w
          else if file_size file > 20 * 1024 * 1024 then emit_toast too_large_toast w
          else w\<lparr>resume := Some file\<rparr>)"

subsection \<open>handleClear\<close>

definition handleClear :: "world \<Rightarrow> world" where
  "handleClear w =
     setProgress 0 (w\<lparr>jobUrl := [], resume := None, result := None\<rparr>)"

subsection \<open>startProgressTracking\<close>

text \<open>
  The value the interval callback computes when \<open>Date.now()\<close> reads \<open>t\<close>. JavaScript
  numbers are doubles; the model computes in exact rationals.
\<close>

definition calculatedProgress :: "int \<Rightarrow> int \<Rightarrow> rat" where
  "calculatedProgress start t =
     min PROCESSING_END
       (PROCESSING_START +
          (of_int (t - start) / ESTIMATED_PROCESSING_TIME) *
          (PROCESSING_END - PROCESSING_START))"

subsection \<open>handleGenerate, up to its first await\<close>

definition missing_toast :: toast where
  "missing_toast =
     \<lparr>title = js ''Missing information'',
      description = js ''Please provide both job URL and resume'',
      variant = destructive\<rparr>"

definition handleGenerate :: "world \<Rightarrow> world" where
  "handleGenerate w =
     (case resume w of
        None \<Rightarrow> emit_toast missing_toast w
      | Some file \<Rightarrow>
          if jobUrl w = [] then emit_toast missing_toast w
          else
            let w1 = setProgress 0 (w\<lparr>isGenerating := True, result := None\<rparr>);
                w2 = setProgress SEND (setProgress PREPARE w1);
                w3 = w2\<lparr>fetch_log := fetch_log w2 @ [(jobUrl w, file)]\<rparr>;
                w4 = setProgress SEND_COMPLETE w3
            in w4\<lparr>calls := calls w4 @
                 [\<lparr>startTime = wall w,
                   progressInterval = Pending (clock w + PROGRESS_UPDATE_INTERVAL),
                   timeoutId = Pending (clock w + REQUEST_TIMEOUT),
                   completeTimer = NotSet,
                   aborted = False,
                   pc = AwaitFetch\<rparr>]\<rparr>)"

subsection \<open>The continuations of handleGenerate\<close>

definition clearTimer :: "timer \<Rightarrow> timer" where
  "clearTimer t = (case t of Pending d \<Rightarrow> Cleared | _ \<Rightarrow> t)"

definition update_call :: "nat \<Rightarrow> (call \<Rightarrow> call) \<Rightarrow> world \<Rightarrow> world" where
  "update_call i f w = w\<lparr>calls := (calls w)[i := f (calls w ! i)]\<rparr>"

definition failure_toast :: "thrown \<Rightarrow> toast" where
  "failure_toast e =
     \<lparr>title = js ''Generation failed'',
      description = (case e of ErrorObject m \<Rightarrow> m | OtherValue \<Rightarrow> js ''Please try again''),
      variant = destructive\<rparr>"

definition success_toast :: toast where
  "success_toast =
     \<lparr>title = js ''Email generated!'',
      description = js ''Your personalized cold email is ready'',
      variant = default_variant\<rparr>"

definition finally_block :: "world \<Rightarrow> world" where
  "finally_block w = w\<lparr>isGenerating := False\<rparr>"

text \<open>The \<open>catch\<close> block followed by \<open>finally\<close>, for call \<open>i\<close> and thrown value \<open>e\<close>.\<close>

definition catch_block :: "nat \<Rightarrow> thrown \<Rightarrow> world \<Rightarrow> world" where
  "catch_block i e w =
     finally_block
       (emit_toast (failure_toast e)
          (setProgress 0
             (update_call i
                (\<lambda>c. c\<lparr>progressInterval := clearTimer (progressInterval c), pc := Caught\<rparr>) w)))"

text \<open>The callback of \<open>setInterval\<close>; it runs only while the interval is live and due.\<close>

definition progress_tick :: "nat \<Rightarrow> world \<Rightarrow> world" where
  "progress_tick i w =
     (if i < length (calls w) then
        (case progressInterval (calls w ! i) of
           Pending due \<Rightarrow>
             if due \<le> clock w then
               setProgress (calculatedProgress (startTime (calls w ! i)) (wall w))
                 (update_call i
                    (\<lambda>c. c\<lparr>progressInterval := Pending (clock w + PROGRESS_UPDATE_INTERVAL)\<rparr>) w)
             else w
         | _ \<Rightarrow> w)
      else w)"

text \<open>
  \<open>await responsePromise\<close> resumes with a response whose \<open>ok\<close> flag is given: lines
  141 to 152, up to \<open>await response.json()\<close> or the \<open>throw\<close>.
\<close>

definition fetch_resolved :: "nat \<Rightarrow> bool \<Rightarrow> world \<Rightarrow> world" where
  "fetch_resolved i ok w =
     (if i < length (calls w) \<and> pc (calls w ! i) = AwaitFetch then
        let w1 = update_call i
                   (\<lambda>c. c\<lparr>timeoutId := clearTimer (timeoutId c),
                          progressInterval := clearTimer (progressInterval c)\<rparr>) w;
            w2 = setProgress RESPONSE_RECEIVED w1
        in if \<not> ok then catch_block i (ErrorObject (js ''Failed to generate email'')) w2
           else update_call i (\<lambda>c. c\<lparr>pc := AwaitJson\<rparr>) (setProgress PARSING w2)
      else w)"

text \<open>\<open>await responsePromise\<close> throws: the fetch promise rejected.\<close>

definition fetch_rejected :: "nat \<Rightarrow> thrown \<Rightarrow> world \<Rightarrow> world" where
  "fetch_rejected i e w =
     (if i < length (calls w) \<and> pc (calls w ! i) = AwaitFetch then catch_block i e w
      else w)"

text \<open>
  The callback of the 120 s timer: \<open>controller.abort()\<close>. A fetch that is still pending
  rejects with the browser's \<open>AbortError\<close>, whose message is \<open>msg\<close>.
\<close>

definition abort_timeout :: "nat \<Rightarrow> jsstring \<Rightarrow> world \<Rightarrow> world" where
  "abort_timeout i msg w =
     (if i < length (calls w) then
        (case timeoutId (calls w ! i) of
           Pending due \<Rightarrow>
             if due \<le> clock w then
               fetch_rejected i (ErrorObject msg)
                 (update_call i (\<lambda>c. c\<lparr>timeoutId := Fired, aborted := True\<rparr>) w)
             else w
         | _ \<Rightarrow> w)
      else w)"

text \<open>\<open>await response.json()\<close> resumes with the decoded body: lines 155 to 164.\<close>

definition json_resolved :: "nat \<Rightarrow> EmailGenerationResponse \<Rightarrow> world \<Rightarrow> world" where
  "json_resolved i data w =
     (if i < length (calls w) \<and> pc (calls w ! i) = AwaitJson then
        let w1 = setProgress PRE_COMPLETE w;
            w2 = w1\<lparr>result := Some data\<rparr>;
            w3 = update_call i (\<lambda>c. c\<lparr>completeTimer := Pending (clock w + 300), pc := Completed\<rparr>) w2
        in finally_block w3
      else w)"

definition json_rejected :: "nat \<Rightarrow> thrown \<Rightarrow> world \<Rightarrow> world" where
  "json_rejected i e w =
     (if i < length (calls w) \<and> pc (calls w ! i) = AwaitJson then catch_block i e w
      else w)"

text \<open>The callback of the 300 ms timer armed on success.\<close>

definition complete_timeout :: "nat \<Rightarrow> world \<Rightarrow> world" where
  "complete_timeout i w =
     (if i < length (calls w) then
        (case completeTimer (calls w ! i) of
           Pending due \<Rightarrow>
             if due \<le> clock w then
               emit_toast success_toast
                 (setProgress COMPLETE (update_call i (\<lambda>c. c\<lparr>completeTimer := Fired\<rparr>) w))
             else w
         | _ \<Rightarrow> w)
      else w)"

subsection \<open>The event loop\<close>

text \<open>
  What can happen to the hook: the caller invokes one of its actions, time passes (on
  both clocks), the wall clock is set, a timer callback runs, or a promise of call \<open>i\<close>
  settles. A callback whose timer is not pending and a settlement nobody awaits leave
  the world as it is.
\<close>

datatype event =
    SetJobUrl jsstring
  | FileChange "File option"
  | ClearForm
  | Generate
  | Elapse nat
  | ClockAdjust int
  | IntervalTick nat
  | AbortTimeout nat jsstring
  | FetchResolved nat bool
  | FetchRejected nat thrown
  | JsonResolved nat EmailGenerationResponse
  | JsonRejected nat thrown
  | CompleteTimeout nat

fun step :: "world \<Rightarrow> event \<Rightarrow> world" where
  "step w (SetJobUrl u) = w\<lparr>jobUrl := u\<rparr>"
| "step w (FileChange f) = handleFileChange f w"
| "step w ClearForm = handleClear w"
| "step w Generate = handleGenerate w"
| "step w (Elapse d) = w\<lparr>clock := clock w + d, wall := wall w + int d\<rparr>"
| "step w (ClockAdjust d) = w\<lparr>wall := wall w + d\<rparr>"
| "step w (IntervalTick i) = progress_tick i w"
| "step w (AbortTimeout i msg) = abort_timeout i msg w"
| "step w (FetchResolved i ok) = fetch_resolved i ok w"
| "step w (FetchRejected i e) = fetch_rejected i e w"
| "step w (JsonResolved i d) = json_resolved i d w"
| "step w (JsonRejected i e) = json_rejected i e w"
| "step w (CompleteTimeout i) = complete_timeout i w"

definition run :: "world \<Rightarrow> event list \<Rightarrow> world" where
  "run w evs = foldl step w evs"

text \<open>Every event but a further call of \<open>handleGenerate\<close>.\<close>

fun no_submit :: "event \<Rightarrow> bool" where
  "no_submit Generate = False"
| "no_submit e = True"

text \<open>
  Every event but a call of \<open>handleGenerate\<close> or \<open>handleClear\<close> and a step of the wall
  clock backwards.
\<close>

fun undisturbed :: "event \<Rightarrow> bool" where
  "undisturbed Generate = False"
| "undisturbed ClearForm = False"
| "undisturbed (ClockAdjust d) = (0 \<le> d)"
| "undisturbed e = True"

text \<open>The hook as mounted: \<open>useState\<close> initial values, nothing in flight.\<close>

definition initial :: world where
  "initial =
     \<lparr>jobUrl = [], resume = None, isGenerating = False, result = None, progress = 0,
      clock = 0, wall = 0, calls = [], toasts = [], progress_log = [], fetch_log = []\<rparr>"

text \<open>What a component rendering the hook can see of it.\<close>

definition observable ::
  "world \<Rightarrow> jsstring \<times> File option \<times> bool \<times> EmailGenerationResponse option \<times> rat" where
  "observable w = (jobUrl w, resume w, isGenerating w, result w, progress w)"

section \<open>The staged reveal (components/CanvasFlow.tsx)\<close>

record props =
  p_isGenerating :: bool
  p_result :: "EmailGenerationResponse option"
  p_progress :: rat

text \<open>
  The component instance: its two state cells, the timer created by the last run of
  each effect, the props of the last render, and the clock. \<open>result_at\<close> records the
  clock reading of the render that last changed the \<open>result\<close> prop.
\<close>

record canvas =
  showAgents :: bool
  showFinal :: bool
  agentsTimer :: timer
  finalTimer :: timer
  cur :: props
  mounted :: bool
  cf_clock :: nat
  result_at :: nat

text \<open>
  The first effect (dependency \<open>isGenerating\<close>) and the cleanup it returns. A run that
  creates no timer returns no cleanup; \<open>clearTimer\<close> leaves a handle that is not pending
  as it is, so the cleanup can be applied to whatever handle the last run left.
\<close>

definition agents_effect :: "canvas \<Rightarrow> canvas" where
  "agents_effect c =
     (if p_isGenerating (cur c)
      then c\<lparr>showAgents := False, showFinal := False,
              agentsTimer := Pending (cf_clock c + 300)\<rparr>
      else c)"

definition agents_cleanup :: "canvas \<Rightarrow> canvas" where
  "agents_cleanup c = c\<lparr>agentsTimer := clearTimer (agentsTimer c)\<rparr>"

text \<open>The second effect (dependency \<open>result\<close>) and its cleanup.\<close>

definition final_effect :: "canvas \<Rightarrow> canvas" where
  "final_effect c =
     (case p_result (cur c) of
        None \<Rightarrow> c
      | Some r \<Rightarrow>
          if status r = complete then c\<lparr>finalTimer := Pending (cf_clock c + 600)\<rparr> else c)"

definition final_cleanup :: "canvas \<Rightarrow> canvas" where
  "final_cleanup c = c\<lparr>finalTimer := clearTimer (finalTimer c)\<rparr>"

text \<open>The callbacks of the two timers.\<close>

definition agents_timeout :: "canvas \<Rightarrow> canvas" where
  "agents_timeout c =
     (case agentsTimer c of
        Pending due \<Rightarrow>
          if due \<le> cf_clock c then c\<lparr>showAgents := True, agentsTimer := Fired\<rparr> else c
      | _ \<Rightarrow> c)"

definition final_timeout :: "canvas \<Rightarrow> canvas" where
  "final_timeout c =
     (case finalTimer c of
        Pending due \<Rightarrow>
          if due \<le> cf_clock c then c\<lparr>showFinal := True, finalTimer := Fired\<rparr> else c
      | _ \<Rightarrow> c)"

text \<open>
  React's commit: on mount both effects run; on a later render the effects whose
  dependency changed run, after the cleanups of their previous runs; on unmount the
  cleanups run. React compares the \<open>result\<close> dependency by reference; decoded
  bodies are never mutated and carry their identity in \<open>obj_ref\<close>, so the same
  object is the same value and two objects differ in \<open>obj_ref\<close>.
\<close>

definition same_result ::
  "EmailGenerationResponse option \<Rightarrow> EmailGenerationResponse option \<Rightarrow> bool" where
  "same_result a b = (a = b)"

definition cf_mount :: "props \<Rightarrow> canvas \<Rightarrow> canvas" where
  "cf_mount p c =
     (if mounted c then c
      else final_effect (agents_effect
             \<lparr>showAgents = False, showFinal = False, agentsTimer = NotSet,
              finalTimer = NotSet, cur = p, mounted = True, cf_clock = cf_clock c,
              result_at = cf_clock c\<rparr>))"

definition cf_update :: "props \<Rightarrow> canvas \<Rightarrow> canvas" where
  "cf_update p c =
     (if \<not> mounted c then c
      else
        let gen_changed = (p_isGenerating p \<noteq> p_isGenerating (cur c));
            res_changed = (\<not> same_result (p_result p) (p_result (cur c)));
            c1 = c\<lparr>cur := p, result_at := (if res_changed then cf_clock c else result_at c)\<rparr>;
            c2 = (if gen_changed then agents_cleanup c1 else c1);
            c3 = (if res_changed then final_cleanup c2 else c2);
            c4 = (if gen_changed then agents_effect c3 else c3)
        in (if res_changed then final_effect c4 else c4))"

definition cf_unmount :: "canvas \<Rightarrow> canvas" where
  "cf_unmount c =
     (if \<not> mounted c then c
      else (final_cleanup (agents_cleanup c))\<lparr>mounted := False\<rparr>)"

datatype cf_event =
    Mount props
  | Update props
  | Unmount
  | Wait nat
  | AgentsTimeout
  | FinalTimeout

fun cf_step :: "canvas \<Rightarrow> cf_event \<Rightarrow> canvas" where
  "cf_step c (Mount p) = cf_mount p c"
| "cf_step c (Update p) = cf_update p c"
| "cf_step c Unmount = cf_unmount c"
| "cf_step c (Wait d) = c\<lparr>cf_clock := cf_clock c + d\<rparr>"
| "cf_step c AgentsTimeout = agents_timeout c"
| "cf_step c FinalTimeout = final_timeout c"

definition cf_run :: "canvas \<Rightarrow> cf_event list \<Rightarrow> canvas" where
  "cf_run c evs = foldl cf_step c evs"

definition cf_initial :: canvas where
  "cf_initial =
     \<lparr>showAgents = False, showFinal = False, agentsTimer = NotSet, finalTimer = NotSet,
      cur = \<lparr>p_isGenerating = False, p_result = None, p_progress = 0\<rparr>,
      mounted = False, cf_clock = 0, result_at = 0\<rparr>"

datatype RevealPhase = Idle | AgentsVisible | FinalVisible

definition reveal_phase :: "canvas \<Rightarrow> RevealPhase" where
  "reveal_phase c =
     (if showFinal c then FinalVisible else if showAgents c then AgentsVisible else Idle)"

section \<open>Text processing (utils/textProcessing.ts)\<close>

subsection \<open>Whitespace and letters\<close>

text \<open>
  The code units that \<open>\s\<close> matches and that \<open>trim\<close> removes: ECMAScript's WhiteSpace
  and LineTerminator.
\<close>

definition is_space :: "jschar \<Rightarrow> bool" where
  "is_space c =
     (c \<in> set [0x0009, 0x000A, 0x000B, 0x000C, 0x000D, 0x0020, 0x00A0, 0x1680,
                0x2000, 0x2001, 0x2002, 0x2003, 0x2004, 0x2005, 0x2006, 0x2007,
                0x2008, 0x2009, 0x200A, 0x2028, 0x2029, 0x202F, 0x205F, 0x3000, 0xFEFF])"

text \<open>\<open>String.prototype.trim\<close>.\<close>

definition trim :: "jsstring \<Rightarrow> jsstring" where
  "trim s = rev (dropWhile is_space (rev (dropWhile is_space s)))"

text \<open>
  Matching under the \<open>i\<close> flag, for a pattern character that is ASCII (every literal of
  the three patterns is): the input code unit is compared after mapping \<open>a\<close>..\<open>z\<close> to
  upper case. A code unit above 127 never canonicalises to an ASCII one.
\<close>

definition ascii_upper :: "jschar \<Rightarrow> jschar" where
  "ascii_upper c = (if 0x61 \<le> c \<and> c \<le> 0x7A then c - 0x20 else c)"

definition ci_eq :: "char \<Rightarrow> jschar \<Rightarrow> bool" where
  "ci_eq p c = (ascii_upper c = ascii_upper (of_char p))"

subsection \<open>A backtracking matcher for the pattern constructs in use\<close>

text \<open>
  A pattern is a sequence of items over character classes: one character, a greedy or a
  lazy star, a greedy option, and the two anchors. \<open>match_here r b s\<close> matches \<open>r\<close> at the
  front of \<open>s\<close>, trying the alternatives in ECMAScript's order, and returns what follows
  the match; \<open>b\<close> tells whether \<open>s\<close> starts at index 0 of the input.
\<close>

datatype cls = Lit char | Space | NonSpace | Either cls cls

fun cls_match :: "cls \<Rightarrow> jschar \<Rightarrow> bool" where
  "cls_match (Lit p) c = ci_eq p c"
| "cls_match Space c = is_space c"
| "cls_match NonSpace c = (\<not> is_space c)"
| "cls_match (Either a b) c = (cls_match a c \<or> cls_match b c)"

datatype item = One cls | Star cls | LazyStar cls | Opt cls | Bol | Eol

fun match_here :: "item list \<Rightarrow> bool \<Rightarrow> jsstring \<Rightarrow> jsstring option" where
  "match_here [] b s = Some s"
| "match_here (One k # r) b [] = None"
| "match_here (One k # r) b (x # xs) =
     (if cls_match k x then match_here r False xs else None)"
| "match_here (Opt k # r) b [] = match_here r b []"
| "match_here (Opt k # r) b (x # xs) =
     (if cls_match k x
      then (case match_here r False xs of
              Some t \<Rightarrow> Some t
            | None \<Rightarrow> match_here r b (x # xs))
      else match_here r b (x # xs))"
| "match_here (Star k # r) b [] = match_here r b []"
| "match_here (Star k # r) b (x # xs) =
     (if cls_match k x
      then (case match_here (Star k # r) False xs of
              Some t \<Rightarrow> Some t
            | None \<Rightarrow> match_here r b (x # xs))
      else match_here r b (x # xs))"
| "match_here (LazyStar k # r) b [] = match_here r b []"
| "match_here (LazyStar k # r) b (x # xs) =
     (case match_here r b (x # xs) of
        Some t \<Rightarrow> Some t
      | None \<Rightarrow> if cls_match k x then match_here (LazyStar k # r) False xs else None)"
| "match_here (Bol # r) b s = (if b then match_here r b s else None)"
| "match_here (Eol # r) b s = (if s = [] then match_here r b s else None)"

text \<open>
  \<open>text.replace(re, '')\<close>: without the \<open>g\<close> flag the leftmost match is removed; with
  it every match is, scanning on from the end of each match, or one code unit further
  after an empty one.
\<close>

fun replace_first :: "item list \<Rightarrow> bool \<Rightarrow> jsstring \<Rightarrow> jsstring" where
  "replace_first r b [] = (case match_here r b [] of Some t \<Rightarrow> t | None \<Rightarrow> [])"
| "replace_first r b (x # xs) =
     (case match_here r b (x # xs) of
        Some t \<Rightarrow> t
      | None \<Rightarrow> x # replace_first r False xs)"

function replace_all :: "item list \<Rightarrow> bool \<Rightarrow> jsstring \<Rightarrow> jsstring" where
  "replace_all r b s =
     (case match_here r b s of
        Some t \<Rightarrow>
          if length t < length s then replace_all r False t
          else (case s of [] \<Rightarrow> [] | x # xs \<Rightarrow> x # replace_all r False xs)
      | None \<Rightarrow> (case s of [] \<Rightarrow> [] | x # xs \<Rightarrow> x # replace_all r False xs))"
  by pat_completeness auto
termination
  by (relation "measure (\<lambda>(r, b, s). length s)") auto

subsection \<open>The three patterns and the transforms\<close>

definition lits :: "string \<Rightarrow> item list" where
  "lits p = map (\<lambda>c. One (Lit c)) p"

text \<open>\<^verbatim>\<open>/<think>[\s\S]*?<\/think>/gi\<close>\<close>

definition think_re :: "item list" where
  "think_re = lits ''<think>'' @ [LazyStar (Either Space NonSpace)] @ lits ''</think>''"

text \<open>\<^verbatim>\<open>/^```json\s*\n?/i\<close>\<close>

definition fence_open_re :: "item list" where
  "fence_open_re = [Bol] @ lits ''```json'' @ [Star Space, Opt (Lit (CHR 0x0A))]"

text \<open>\<^verbatim>\<open>/\n?```\s*$/i\<close>\<close>

definition fence_close_re :: "item list" where
  "fence_close_re = [Opt (Lit (CHR 0x0A))] @ lits ''```'' @ [Star Space, Eol]"

definition removeThinkTags :: "jsstring \<Rightarrow> jsstring" where
  "removeThinkTags text = trim (replace_all think_re True text)"

definition stripMarkdownCodeBlocks :: "jsstring \<Rightarrow> jsstring" where
  "stripMarkdownCodeBlocks text =
     trim (replace_first fence_close_re True (replace_first fence_open_re True text))"

subsection \<open>parseJsonWrapper\<close>

text \<open>
  A decoded JSON value. A number keeps its lexeme. An object keeps its members in source
  order; of two members with the same key the later one is the property.
\<close>

datatype json =
    JNull
  | JBool bool
  | JNumber jsstring
  | JString jsstring
  | JArray "json list"
  | JObject "(jsstring \<times> json) list"

text \<open>
  Reading the property \<open>final_email\<close> or \<open>reasoning\<close>: of \<open>null\<close> it throws a
  \<open>TypeError\<close>; of an object it is the member or \<open>undefined\<close> (\<open>None\<close>); of an array or
  a primitive it is \<open>undefined\<close>, no prototype having a property of either name.
\<close>

fun get_property :: "json \<Rightarrow> jsstring \<Rightarrow> thrown + json option" where
  "get_property JNull k = Inl (ErrorObject (js ''Cannot read properties of null''))"
| "get_property (JObject kvs) k = Inr (map_of (rev kvs) k)"
| "get_property v k = Inr None"

text \<open>The returned object; a field that is absent or \<open>undefined\<close> is \<open>None\<close>.\<close>

record wrapper =
  email :: "json option"
  reasoning :: "json option"
  parsed :: bool

text \<open>
  \<open>JSON.parse\<close> is the platform's: the function takes it as the parameter
  \<open>JSON_parse\<close>. The \<open>try\<close> block evaluates to the returned object or to the thrown
  value, which \<open>catch\<close> discards.
\<close>

definition parseJsonWrapper ::
  "(jsstring \<Rightarrow> thrown + json) \<Rightarrow> jsstring \<Rightarrow> thrown + wrapper" where
  "parseJsonWrapper JSON_parse content =
     (let cleanContent = stripMarkdownCodeBlocks content;
          try_block =
            (case JSON_parse cleanContent of
               Inl e \<Rightarrow> Inl e
             | Inr obj \<Rightarrow>
                 (case get_property obj (js ''final_email'') of
                    Inl e \<Rightarrow> Inl e
                  | Inr fe \<Rightarrow>
                      (case get_property obj (js ''reasoning'') of
                         Inl e \<Rightarrow> Inl e
                       | Inr rs \<Rightarrow> Inr \<lparr>email = fe, reasoning = rs, parsed = True\<rparr>)))
      in case try_block of
           Inr r \<Rightarrow> Inr r
         | Inl e \<Rightarrow>
             Inr \<lparr>email = Some (JString cleanContent), reasoning = None, parsed = False\<rparr>)"

subsection \<open>A decoder for the JSON grammar\<close>

text \<open>
  A decoder for the grammar of ECMA-404, with which \<open>parseJsonWrapper\<close> is run on
  concrete texts. \<open>parse_value\<close> takes a bound on the calls it may nest;
  \<open>JSON_decode\<close> gives it the length of the text plus one.
\<close>

definition json_ws :: "jschar \<Rightarrow> bool" where
  "json_ws c = (c \<in> set [0x20, 0x09, 0x0A, 0x0D])"

definition skip_ws :: "jsstring \<Rightarrow> jsstring" where
  "skip_ws s = dropWhile json_ws s"

definition is_digit :: "jschar \<Rightarrow> bool" where
  "is_digit c = (0x30 \<le> c \<and> c \<le> 0x39)"

definition hex_digit :: "jschar \<Rightarrow> jschar option" where
  "hex_digit c =
     (if 0x30 \<le> c \<and> c \<le> 0x39 then Some (c - 0x30)
      else if 0x41 \<le> c \<and> c \<le> 0x46 then Some (c - 0x37)
      else if 0x61 \<le> c \<and> c \<le> 0x66 then Some (c - 0x57)
      else None)"

definition unescape :: "jschar \<Rightarrow> jschar option" where
  "unescape e =
     (if e = 0x22 \<or> e = 0x5C \<or> e = 0x2F then Some e
      else if e = 0x62 then Some 0x08
      else if e = 0x66 then Some 0x0C
      else if e = 0x6E then Some 0x0A
      else if e = 0x72 then Some 0x0D
      else if e = 0x74 then Some 0x09
      else None)"

fun parse_chars :: "jsstring \<Rightarrow> jsstring \<Rightarrow> (jsstring \<times> jsstring) option" where
  "parse_chars acc [] = None"
| "parse_chars acc (c # cs) =
     (if c = 0x22 then Some (rev acc, cs)
      else if c = 0x5C then
        (case cs of
           [] \<Rightarrow> None
         | e # es \<Rightarrow>
             if e = 0x75 then
               (case es of
                  h1 # h2 # h3 # h4 # rest \<Rightarrow>
                    (case (hex_digit h1, hex_digit h2, hex_digit h3, hex_digit h4) of
                       (Some a, Some b, Some c, Some d) \<Rightarrow>
                         parse_chars ((((a * 16 + b) * 16 + c) * 16 + d) # acc) rest
                     | _ \<Rightarrow> None)
                | _ \<Rightarrow> None)
             else
               (case unescape e of
                  Some ch \<Rightarrow> parse_chars (ch # acc) es
                | None \<Rightarrow> None))
      else if c < 0x20 then None
      else parse_chars (c # acc) cs)"

definition parse_digits :: "jsstring \<Rightarrow> (jsstring \<times> jsstring) option" where
  "parse_digits s =
     (if takeWhile is_digit s = [] then None
      else Some (takeWhile is_digit s, dropWhile is_digit s))"

definition parse_int_part :: "jsstring \<Rightarrow> (jsstring \<times> jsstring) option" where
  "parse_int_part s =
     (case s of
        [] \<Rightarrow> None
      | d # ds \<Rightarrow> if d = 0x30 then Some ([d], ds) else parse_digits s)"

definition parse_frac :: "jsstring \<Rightarrow> (jsstring \<times> jsstring) option" where
  "parse_frac s =
     (case s of
        [] \<Rightarrow> Some ([], s)
      | d # ds \<Rightarrow>
          if d = 0x2E then map_option (\<lambda>(f, r). (d # f, r)) (parse_digits ds)
          else Some ([], s))"

definition parse_exp :: "jsstring \<Rightarrow> (jsstring \<times> jsstring) option" where
  "parse_exp s =
     (case s of
        [] \<Rightarrow> Some ([], s)
      | e # es \<Rightarrow>
          if e = 0x65 \<or> e = 0x45 then
            (case es of
               [] \<Rightarrow> None
             | g # gs \<Rightarrow>
                 if g = 0x2B \<or> g = 0x2D
                 then map_option (\<lambda>(x, r). (e # g # x, r)) (parse_digits gs)
                 else map_option (\<lambda>(x, r). (e # x, r)) (parse_digits es))
          else Some ([], s))"

definition parse_number :: "jsstring \<Rightarrow> (jsstring \<times> jsstring) option" where
  "parse_number s =
     (let (sign, s1) = (case s of [] \<Rightarrow> ([], s) | c # cs \<Rightarrow> if c = 0x2D then ([c], cs) else ([], s))
      in case parse_int_part s1 of
           None \<Rightarrow> None
         | Some (ip, s2) \<Rightarrow>
             (case parse_frac s2 of
                None \<Rightarrow> None
              | Some (fp, s3) \<Rightarrow>
                  (case parse_exp s3 of
                     None \<Rightarrow> None
                   | Some (ep, s4) \<Rightarrow> Some (sign @ ip @ fp @ ep, s4))))"

definition starts_with :: "jsstring \<Rightarrow> jsstring \<Rightarrow> bool" where
  "starts_with p s = (take (length p) s = p)"

fun parse_value :: "nat \<Rightarrow> jsstring \<Rightarrow> (json \<times> jsstring) option"
  and parse_elements :: "nat \<Rightarrow> json list \<Rightarrow> jsstring \<Rightarrow> (json \<times> jsstring) option"
  and parse_members ::
    "nat \<Rightarrow> (jsstring \<times> json) list \<Rightarrow> jsstring \<Rightarrow> (json \<times> jsstring) option" where
  "parse_value 0 s = None"
| "parse_value (Suc n) s =
     (case s of
        [] \<Rightarrow> None
      | c # cs \<Rightarrow>
          if c = 0x7B then
            (case skip_ws cs of
               [] \<Rightarrow> None
             | d # ds \<Rightarrow> if d = 0x7D then Some (JObject [], ds) else parse_members n [] (d # ds))
          else if c = 0x5B then
            (case skip_ws cs of
               [] \<Rightarrow> None
             | d # ds \<Rightarrow> if d = 0x5D then Some (JArray [], ds) else parse_elements n [] (d # ds))
          else if c = 0x22 then map_option (\<lambda>(str, r). (JString str, r)) (parse_chars [] cs)
          else if starts_with (js ''true'') s then Some (JBool True, drop 4 s)
          else if starts_with (js ''false'') s then Some (JBool False, drop 5 s)
          else if starts_with (js ''null'') s then Some (JNull, drop 4 s)
          else map_option (\<lambda>(lexeme, r). (JNumber lexeme, r)) (parse_number s))"
| "parse_elements 0 acc s = None"
| "parse_elements (Suc n) acc s =
     (case parse_value n s of
        None \<Rightarrow> None
      | Some (v, r) \<Rightarrow>
          (case skip_ws r of
             [] \<Rightarrow> None
           | d # ds \<Rightarrow>
               if d = 0x2C then parse_elements n (v # acc) (skip_ws ds)
               else if d = 0x5D then Some (JArray (rev (v # acc)), ds)
               else None))"
| "parse_members 0 acc s = None"
| "parse_members (Suc n) acc s =
     (case s of
        [] \<Rightarrow> None
      | q # cs \<Rightarrow>
          if q \<noteq> 0x22 then None
          else
            (case parse_chars [] cs of
               None \<Rightarrow> None
             | Some (k, r) \<Rightarrow>
                 (case skip_ws r of
                    [] \<Rightarrow> None
                  | d # ds \<Rightarrow>
                      if d \<noteq> 0x3A then None
                      else
                        (case parse_value n (skip_ws ds) of
                           None \<Rightarrow> None
                         | Some (v, r') \<Rightarrow>
                             (case skip_ws r' of
                                [] \<Rightarrow> None
                              | g # gs \<Rightarrow>
                                  if g = 0x2C then parse_members n ((k, v) # acc) (skip_ws gs)
                                  else if g = 0x7D then Some (JObject (rev ((k, v) # acc)), gs)
                                  else None)))))"

definition JSON_decode :: "jsstring \<Rightarrow> thrown + json" where
  "JSON_decode text =
     (case parse_value (Suc (length text)) (skip_ws text) of
        None \<Rightarrow> Inl (ErrorObject (js ''Unexpected token''))
      | Some (v, r) \<Rightarrow>
          if skip_ws r = [] then Inr v else Inl (ErrorObject (js ''Unexpected token'')))"

subsection \<open>The text transforms as the specification words them\<close>

fun tag_at :: "string \<Rightarrow> jsstring \<Rightarrow> bool" where
  "tag_at [] s = True"
| "tag_at (p # ps) [] = False"
| "tag_at (p # ps) (x # xs) = (ci_eq p x \<and> tag_at ps xs)"

fun find_tag :: "string \<Rightarrow> jsstring \<Rightarrow> nat option" where
  "find_tag tag [] = (if tag_at tag [] then Some 0 else None)"
| "find_tag tag (x # xs) =
     (if tag_at tag (x # xs) then Some 0 else map_option Suc (find_tag tag xs))"

function strip_spans :: "jsstring \<Rightarrow> jsstring" where
  "strip_spans [] = []"
| "strip_spans (x # xs) =
     (if tag_at ''<think>'' (x # xs) then
        (case find_tag ''</think>'' (drop 7 (x # xs)) of
           Some k \<Rightarrow> strip_spans (drop (7 + k + 8) (x # xs))
         | None \<Rightarrow> x # strip_spans xs)
      else x # strip_spans xs)"
  by pat_completeness auto
termination
  by (relation "measure length") auto

definition stripReasoningMarkup :: "jsstring \<Rightarrow> jsstring" where
  "stripReasoningMarkup text = trim (strip_spans text)"

fun no_span :: "jsstring \<Rightarrow> bool" where
  "no_span [] = True"
| "no_span (x # xs) =
     ((tag_at ''<think>'' (x # xs) \<longrightarrow> find_tag ''</think>'' (drop 7 (x # xs)) = None) \<and>
      no_span xs)"

definition drop_leading_fence :: "jsstring \<Rightarrow> jsstring" where
  "drop_leading_fence s =
     (if tag_at ''```json'' s then dropWhile is_space (drop 7 s) else s)"

definition closing_fence :: "jsstring \<Rightarrow> bool" where
  "closing_fence t = (tag_at ''```'' t \<and> list_all is_space (drop 3 t))"

fun drop_trailing_fence :: "jsstring \<Rightarrow> jsstring" where
  "drop_trailing_fence [] = []"
| "drop_trailing_fence (x # xs) =
     (if closing_fence (x # xs) \<or> x = 0x0A \<and> closing_fence xs then []
      else x # drop_trailing_fence xs)"

definition strip_fences :: "jsstring \<Rightarrow> jsstring" where
  "strip_fences text = trim (drop_trailing_fence (drop_leading_fence text))"

section \<open>Runs of the hook in which one call is live\<close>

definition is_pending :: "timer \<Rightarrow> bool" where
  "is_pending t = (case t of Pending d \<Rightarrow> True | _ \<Rightarrow> False)"

text \<open>
  What holds of the latest call \<open>c\<close> and of the values \<open>L\<close> passed to
  \<open>setProgress\<close> since that call began, at each of its control points.
\<close>

definition call_inv :: "rat list \<Rightarrow> call \<Rightarrow> world \<Rightarrow> bool" where
  "call_inv L c w =
     (L \<noteq> [] \<and> hd L = 0 \<and> last L = progress w \<and>
        (case pc c of
           AwaitFetch \<Rightarrow>
             sorted L \<and> last L \<le> calculatedProgress (startTime c) (wall w) \<and>
             completeTimer c = NotSet \<and> isGenerating w \<and> result w = None
         | AwaitJson \<Rightarrow>
             sorted L \<and> last L = PARSING \<and> \<not> is_pending (progressInterval c) \<and>
             completeTimer c = NotSet \<and> isGenerating w \<and> result w = None
         | Completed \<Rightarrow>
             sorted L \<and> \<not> is_pending (progressInterval c) \<and> \<not> isGenerating w \<and>
             result w \<noteq> None \<and>
             ((\<exists>d. completeTimer c = Pending d \<and> d \<le> clock w + 300) \<and>
                last L = PRE_COMPLETE \<or>
              completeTimer c = Fired \<and> last L = COMPLETE)
         | Caught \<Rightarrow>
             sorted (butlast L) \<and> last L = 0 \<and> \<not> is_pending (progressInterval c) \<and>
             completeTimer c = NotSet \<and> \<not> isGenerating w \<and> result w = None))"

text \<open>
  A call that is over: it ended in \<open>try\<close> or in \<open>catch\<close>, and neither its progress
  interval nor its 300 ms timer is pending. Its 120 s timer may still be.
\<close>

definition quiescent :: "call \<Rightarrow> bool" where
  "quiescent c =
     ((pc c = Completed \<or> pc c = Caught) \<and> \<not> is_pending (progressInterval c) \<and>
      \<not> is_pending (completeTimer c))"

text \<open>
  The invariant of a run in which call \<open>n\<close> is the latest and every earlier call is
  over; \<open>pre\<close> is what had been passed to \<open>setProgress\<close> before call \<open>n\<close> began.
\<close>

definition latest_inv :: "rat list \<Rightarrow> nat \<Rightarrow> world \<Rightarrow> bool" where
  "latest_inv pre n w =
     (\<exists>L old c. progress_log w = pre @ L \<and> calls w = old @ [c] \<and> length old = n \<and>
        list_all quiescent old \<and> call_inv L c w)"

text \<open>
  What holds of the latest call \<open>c\<close>, whatever the caller does short of submitting
  again: until it settles no result is stored, and once it has ended in \<open>catch\<close>
  progress is 0, no result is stored, the hook is not generating and neither the
  progress interval nor the 300 ms timer of the call is pending.
\<close>

definition outcome_call :: "call \<Rightarrow> world \<Rightarrow> bool" where
  "outcome_call c w =
     (case pc c of
        AwaitFetch \<Rightarrow> completeTimer c = NotSet \<and> result w = None
      | AwaitJson \<Rightarrow>
          completeTimer c = NotSet \<and> \<not> is_pending (progressInterval c) \<and> result w = None
      | Completed \<Rightarrow> True
      | Caught \<Rightarrow>
          progress w = 0 \<and> result w = None \<and> \<not> isGenerating w \<and>
          \<not> is_pending (progressInterval c) \<and> completeTimer c = NotSet)"

text \<open>The same in a run in which call \<open>n\<close> is the latest and every earlier call is over.\<close>

definition outcome_inv :: "nat \<Rightarrow> world \<Rightarrow> bool" where
  "outcome_inv n w =
     (\<exists>old c. calls w = old @ [c] \<and> length old = n \<and> list_all quiescent old \<and>
        outcome_call c w)"

text \<open>
  The state in which call \<open>i\<close> has just failed, \<open>w\<close> being the world before the failure
  and \<open>cause\<close> the text of the notice: the call ended in \<open>catch\<close>, its progress interval
  is not pending, progress is 0 and 0 is the last value passed to \<open>setProgress\<close>, the
  hook is no longer generating, the stored result is as it was, and one destructive
  notice titled "Generation failed" that describes the cause was emitted.
\<close>

definition failed_with :: "nat \<Rightarrow> jsstring \<Rightarrow> world \<Rightarrow> world \<Rightarrow> bool" where
  "failed_with i cause w w' =
     (pc (calls w' ! i) = Caught \<and> \<not> is_pending (progressInterval (calls w' ! i)) \<and>
      progress w' = 0 \<and> last (progress_log w') = 0 \<and> \<not> isGenerating w' \<and>
      result w' = result w \<and>
      toasts w' = toasts w @
        [\<lparr>title = js ''Generation failed'', description = cause, variant = destructive\<rparr>])"

section \<open>The invariant of the staged reveal\<close>

text \<open>
  A pending final timer belongs to a mounted component whose current \<open>result\<close> is a
  complete response, and is due 600 ms after the render that brought that result.
\<close>

definition cf_inv :: "canvas \<Rightarrow> bool" where
  "cf_inv c =
     (is_pending (finalTimer c) \<longrightarrow>
        mounted c \<and> finalTimer c = Pending (result_at c + 600) \<and>
        (\<exists>r. p_result (cur c) = Some r \<and> status r = complete))"

text \<open>A pending agents timer belongs to a mounted component that is generating.\<close>

definition cf_agents_inv :: "canvas \<Rightarrow> bool" where
  "cf_agents_inv c = (is_pending (agentsTimer c) \<longrightarrow> mounted c \<and> p_isGenerating (cur c))"

section \<open>Sample inputs\<close>

definition sample_url :: jsstring where
  "sample_url = js ''https://jobs.lever.co/company/job-id''"

definition sample_pdf :: File where
  "sample_pdf =
     \<lparr>file_name = js ''cv.pdf'', file_type = js ''application/pdf'', file_size = 1000\<rparr>"

definition sample_txt :: File where
  "sample_txt =
     \<lparr>file_name = js ''cv.txt'', file_type = js ''text/plain'', file_size = 1000\<rparr>"

definition sample_big :: File where
  "sample_big =
     \<lparr>file_name = js ''cv.pdf'', file_type = js ''application/pdf'',
      file_size = 20 * 1024 * 1024 + 1\<rparr>"

definition sample_response :: EmailGenerationResponse where
  "sample_response = \<lparr>obj_ref = 1, request_id = js ''r1'', status = complete\<rparr>"

text \<open>The form filled in, and the same world after \<open>handleGenerate\<close> reached its await.\<close>

definition ready :: world where
  "ready = run initial [SetJobUrl sample_url, FileChange (Some sample_pdf)]"

definition in_flight :: world where
  "in_flight = step ready Generate"

text \<open>The first call failed at the transport level; the form is then submitted again.\<close>

definition retry :: world where
  "retry = step in_flight (FetchRejected 0 (ErrorObject (js ''Failed to fetch'')))"

definition retry_flight :: world where
  "retry_flight = step retry Generate"

text \<open>
  The first call succeeded, and the form is submitted again before the 300 ms timer of
  that call has run.
\<close>

definition after_success :: world where
  "after_success = run in_flight [FetchResolved 0 True, JsonResolved 0 sample_response]"

definition overlap_flight :: world where
  "overlap_flight = step after_success Generate"

definition mounted_pending :: props where
  "mounted_pending = \<lparr>p_isGenerating = True, p_result = None, p_progress = 20\<rparr>"

definition mounted_done :: props where
  "mounted_done = \<lparr>p_isGenerating = False, p_result = Some sample_response, p_progress = 95\<rparr>"

definition mounted_failed :: props where
  "mounted_failed = \<lparr>p_isGenerating = False, p_result = None, p_progress = 0\<rparr>"

definition example_body :: jsstring where
  "example_body = js ''{\"final_email\":\"Hi\",\"reasoning\":\"why\"}''"

definition fenced_example :: jsstring where
  "fenced_example =
     js (''```json'' @ [CHR 0x0A] @ ''{\"final_email\":\"Hi\",\"reasoning\":\"why\"}'' @
         [CHR 0x0A] @ ''```'')"

definition multiline_example :: jsstring where
  "multiline_example = js (''  Hi<THINK>plan'' @ [CHR 0x0A] @ ''more</Think> there  '')"

section \<open>Properties of the hook\<close>

lemmas hook_defs = run_def initial_def handleFileChange_def handleGenerate_def handleClear_def
  setProgress_def emit_toast_def progress_tick_def fetch_resolved_def fetch_rejected_def
  json_resolved_def json_rejected_def abort_timeout_def complete_timeout_def catch_block_def
  finally_block_def update_call_def clearTimer_def observable_def

lemmas const_defs = REQUEST_TIMEOUT_def PROGRESS_UPDATE_INTERVAL_def
  ESTIMATED_PROCESSING_TIME_def PREPARE_def SEND_def SEND_COMPLETE_def PROCESSING_START_def
  PROCESSING_END_def RESPONSE_RECEIVED_def PARSING_def PRE_COMPLETE_def COMPLETE_def

subsection \<open>The sample worlds, evaluated\<close>

lemma sample_pdf_valid: "file_type sample_pdf \<in> set validTypes"
  by (simp add: sample_pdf_def validTypes_def js_def)

lemma sample_txt_invalid: "file_type sample_txt \<notin> set validTypes"
  by (simp add: sample_txt_def validTypes_def js_def)

lemma sample_url_nonempty: "sample_url \<noteq> []"
  by (simp add: sample_url_def js_def)

lemma ready_eq: "ready = initial\<lparr>jobUrl := sample_url, resume := Some sample_pdf\<rparr>"
  using sample_pdf_valid
  by (simp add: ready_def run_def handleFileChange_def sample_pdf_def)

lemma ready_facts:
  "calls ready = []" "jobUrl ready \<noteq> []" "resume ready = Some sample_pdf"
  "progress_log ready = []"
  using sample_url_nonempty by (simp_all add: ready_eq initial_def)

lemma in_flight_eq:
  "in_flight =
     \<lparr>jobUrl = sample_url, resume = Some sample_pdf, isGenerating = True, result = None,
      progress = 20, clock = 0, wall = 0,
      calls = [\<lparr>startTime = 0, progressInterval = Pending 500, timeoutId = Pending 120000,
               completeTimer = NotSet, aborted = False, pc = AwaitFetch\<rparr>],
      toasts = [], progress_log = [0, 5, 10, 20], fetch_log = [(sample_url, sample_pdf)]\<rparr>"
  using sample_url_nonempty
  by (simp add: in_flight_def ready_eq initial_def handleGenerate_def setProgress_def const_defs)

lemma handleGenerate_ready: "handleGenerate ready = in_flight"
  by (simp add: in_flight_def)

subsection \<open>Input validation\<close>

text \<open>
  C9. When \<open>handleGenerate\<close> is invoked with an empty job URL or without a resume, it
  emits the "Missing information" notice and returns: no form is posted, no call is
  created, and nothing a renderer can observe of the hook changes.
\<close>

theorem handleGenerate_missing_input:
  "jobUrl w = [] \<or> resume w = None \<Longrightarrow>
     handleGenerate w = w\<lparr>toasts := toasts w @ [missing_toast]\<rparr> \<and>
     fetch_log (handleGenerate w) = fetch_log w \<and>
     calls (handleGenerate w) = calls w \<and>
     observable (handleGenerate w) = observable w \<and>
     progress_log (handleGenerate w) = progress_log w"
  by (auto simp: handleGenerate_def emit_toast_def observable_def split: option.splits)

theorem handleGenerate_missing_input_witness:
  "jobUrl (initial\<lparr>resume := Some sample_pdf\<rparr>) = [] \<and>
   fetch_log (handleGenerate (initial\<lparr>resume := Some sample_pdf\<rparr>)) = [] \<and>
   calls (handleGenerate (initial\<lparr>resume := Some sample_pdf\<rparr>)) = [] \<and>
   toasts (handleGenerate (initial\<lparr>resume := Some sample_pdf\<rparr>)) = [missing_toast]"
  using handleGenerate_missing_input [of "initial\<lparr>resume := Some sample_pdf\<rparr>"]
  by (simp add: initial_def)

text \<open>
  C8. For a picked file whose media type is neither of the two accepted types, or whose
  size exceeds 20 MiB, \<open>handleFileChange\<close> leaves the stored resume and every other
  state cell as they were and emits one destructive notice ("Invalid file type" or
  "File too large"). The handler has no raising operation: its result is a world.
\<close>

theorem handleFileChange_rejects:
  "file_type f \<notin> set validTypes \<or> file_size f > 20 * 1024 * 1024 \<Longrightarrow>
     handleFileChange (Some f) w =
       w\<lparr>toasts := toasts w @
            [if file_type f \<notin> set validTypes then invalid_type_toast else too_large_toast]\<rparr> \<and>
     resume (handleFileChange (Some f) w) = resume w \<and>
     observable (handleFileChange (Some f) w) = observable w \<and>
     variant (last (toasts (handleFileChange (Some f) w))) = destructive"
  by (auto simp: handleFileChange_def emit_toast_def observable_def invalid_type_toast_def
      too_large_toast_def)

theorem handleFileChange_rejects_witness:
  "file_type sample_txt \<notin> set validTypes \<and>
   file_size sample_big > 20 * 1024 * 1024 \<and>
   resume (handleFileChange (Some sample_txt) ready) = Some sample_pdf \<and>
   toasts (handleFileChange (Some sample_txt) ready) = [invalid_type_toast] \<and>
   resume (handleFileChange (Some sample_big) ready) = Some sample_pdf \<and>
   toasts (handleFileChange (Some sample_big) ready) = [too_large_toast]"
  using handleFileChange_rejects [of sample_txt ready]
    handleFileChange_rejects [of sample_big ready] sample_txt_invalid sample_pdf_valid
  by (simp add: ready_eq initial_def sample_big_def sample_pdf_def)

subsection \<open>The abort timer\<close>

text \<open>
  C10. When the fetch promise of a call rejects while its 120 s timer is pending, the
  timer stays pending (only the path on which the fetch resolves clears it). Once its
  due time has passed its callback runs \<open>controller.abort()\<close> for the call that has
  already ended in \<open>catch\<close>, and nothing observable changes.
\<close>

theorem abort_timer_survives_rejection:
  "i < length (calls w) \<Longrightarrow> pc (calls w ! i) = AwaitFetch \<Longrightarrow>
   timeoutId (calls w ! i) = Pending due \<Longrightarrow>
     timeoutId (calls (fetch_rejected i e w) ! i) = Pending due \<and>
     timeoutId (calls (fetch_resolved i ok w) ! i) = Cleared \<and>
     (due \<le> clock w + d \<longrightarrow>
        timeoutId (calls (run (fetch_rejected i e w) [Elapse d, AbortTimeout i msg]) ! i) = Fired \<and>
        aborted (calls (run (fetch_rejected i e w) [Elapse d, AbortTimeout i msg]) ! i) \<and>
        pc (calls (run (fetch_rejected i e w) [Elapse d, AbortTimeout i msg]) ! i) = Caught \<and>
        observable (run (fetch_rejected i e w) [Elapse d, AbortTimeout i msg]) =
          observable (fetch_rejected i e w) \<and>
        toasts (run (fetch_rejected i e w) [Elapse d, AbortTimeout i msg]) =
          toasts (fetch_rejected i e w))"
  by (simp add: hook_defs Let_def)

theorem abort_timer_survives_rejection_witness:
  "0 < length (calls in_flight) \<and> pc (calls in_flight ! 0) = AwaitFetch \<and>
   timeoutId (calls in_flight ! 0) = Pending 120000 \<and>
   120000 \<le> clock in_flight + 120000 \<and>
   timeoutId (calls (fetch_rejected 0 (ErrorObject (js ''Failed to fetch'')) in_flight) ! 0)
     = Pending 120000 \<and>
   aborted (calls (run (fetch_rejected 0 (ErrorObject (js ''Failed to fetch'')) in_flight)
                     [Elapse 120000, AbortTimeout 0 (js ''The user aborted a request.'')]) ! 0)"
  using abort_timer_survives_rejection [of 0 in_flight 120000
      "ErrorObject (js ''Failed to fetch'')" True 120000 "js ''The user aborted a request.''"]
  by (simp add: in_flight_eq)

subsection \<open>Clearing the form\<close>

text \<open>
  C1, as the source behaves. \<open>handleClear\<close> resets the job URL, the resume, the result
  and the progress, whenever it is called. It touches neither \<open>isGenerating\<close> nor the
  calls in flight and their timers: when the fetch of such a call resolves afterwards
  the continuation still advances the progress, and when its body is decoded the
  result is still stored.
\<close>

theorem handleClear_resets:
  "jobUrl (handleClear w) = [] \<and> resume (handleClear w) = None \<and>
   result (handleClear w) = None \<and> progress (handleClear w) = 0 \<and>
   isGenerating (handleClear w) = isGenerating w \<and> calls (handleClear w) = calls w \<and>
   toasts (handleClear w) = toasts w \<and> clock (handleClear w) = clock w \<and>
   (i < length (calls w) \<and> pc (calls w ! i) = AwaitFetch \<longrightarrow>
      progress (fetch_resolved i True (handleClear w)) = PARSING) \<and>
   (i < length (calls w) \<and> pc (calls w ! i) = AwaitJson \<longrightarrow>
      progress (json_resolved i d (handleClear w)) = PRE_COMPLETE \<and>
      result (json_resolved i d (handleClear w)) = Some d)"
  by (simp add: handleClear_def setProgress_def fetch_resolved_def json_resolved_def
      update_call_def finally_block_def Let_def)

theorem handleClear_resets_witness:
  "0 < length (calls in_flight) \<and> pc (calls in_flight ! 0) = AwaitFetch \<and>
   progress (handleClear in_flight) = 0 \<and> result (handleClear in_flight) = None \<and>
   isGenerating (handleClear in_flight) \<and>
   progress (fetch_resolved 0 True (handleClear in_flight)) = 90 \<and>
   pc (calls (fetch_resolved 0 True in_flight) ! 0) = AwaitJson \<and>
   result (json_resolved 0 sample_response (handleClear (fetch_resolved 0 True in_flight)))
     = Some sample_response"
  using handleClear_resets [of in_flight 0 sample_response]
    handleClear_resets [of "fetch_resolved 0 True in_flight" 0 sample_response]
  by (simp add: in_flight_eq hook_defs const_defs Let_def)

text \<open>
  The form is cleared while a call awaits its fetch; the fetch then resolves and the
  body is decoded. What a renderer observes afterwards differs from what it observed
  right after the clear.
\<close>

theorem clear_mid_flight_counterexample:
  "observable (run in_flight [ClearForm, FetchResolved 0 True, JsonResolved 0 sample_response])
     \<noteq> observable (run in_flight [ClearForm])"
  by (simp add: in_flight_eq hook_defs const_defs Let_def)

subsection \<open>Earlier calls that are over\<close>

lemma not_pending_clearTimer: "\<not> is_pending (clearTimer t)"
  by (simp add: is_pending_def clearTimer_def split: timer.splits)

lemma quiescent_update:
  "list_all quiescent old \<Longrightarrow> i < length old \<Longrightarrow>
     list_all quiescent (old[i := (old ! i)\<lparr>timeoutId := t, aborted := a\<rparr>])"
  by (auto simp: list_all_length nth_list_update quiescent_def)

lemma old_call_facts:
  assumes "list_all quiescent old" "i < length old"
  shows "pc (old ! i) \<noteq> AwaitFetch" "pc (old ! i) \<noteq> AwaitJson"
    "\<not> is_pending (progressInterval (old ! i))" "\<not> is_pending (completeTimer (old ! i))"
  using assms by (auto simp: list_all_length quiescent_def)

lemma old_call_step:
  assumes "calls w = old @ [c]" "list_all quiescent old" "i < length old"
  shows "progress_tick i w = w" "fetch_resolved i ok w = w" "fetch_rejected i e w = w"
    "json_resolved i d w = w" "json_rejected i e w = w" "complete_timeout i w = w"
  using assms old_call_facts [OF assms(2,3)]
  by (auto simp: progress_tick_def fetch_resolved_def fetch_rejected_def json_resolved_def
      json_rejected_def complete_timeout_def nth_append is_pending_def split: timer.splits)

lemma old_call_abort:
  assumes "calls w = old @ [c]" "list_all quiescent old" "i < length old"
  shows "abort_timeout i msg w = w \<or>
         abort_timeout i msg w =
           w\<lparr>calls := old[i := (old ! i)\<lparr>timeoutId := Fired, aborted := True\<rparr>] @ [c]\<rparr>"
  using assms old_call_facts [OF assms(2,3)]
  by (auto simp: abort_timeout_def fetch_rejected_def update_call_def nth_append
      list_update_append split: timer.splits)

text \<open>
  An event addressed to an earlier call that is over changes at most the handle of its
  120 s timer and its abort flag.
\<close>

lemma old_event:
  assumes "calls w = old @ [c]" "list_all quiescent old" "i < length old"
    "e = IntervalTick i \<or> e = AbortTimeout i msg \<or> e = FetchResolved i ok \<or>
     e = FetchRejected i err \<or> e = JsonResolved i d \<or> e = JsonRejected i err \<or>
     e = CompleteTimeout i"
  shows "\<exists>old'. step w e = w\<lparr>calls := old' @ [c]\<rparr> \<and> length old' = length old \<and>
           list_all quiescent old'"
proof -
  note st = old_call_step [OF assms(1-3)]
  have same: "w = w\<lparr>calls := old @ [c]\<rparr>"
    using assms(1) by simp
  consider (ab) "e = AbortTimeout i msg" | (other) "step w e = w"
    using assms(4) st by auto
  then show ?thesis
  proof cases
    case other
    then show ?thesis using same assms(2) by metis
  next
    case ab
    from old_call_abort [OF assms(1-3), of msg] show ?thesis
    proof
      assume "abort_timeout i msg w = w"
      then show ?thesis using ab same assms(2) by (metis step.simps(8))
    next
      assume "abort_timeout i msg w =
           w\<lparr>calls := old[i := (old ! i)\<lparr>timeoutId := Fired, aborted := True\<rparr>] @ [c]\<rparr>"
      then show ?thesis
        using ab quiescent_update [OF assms(2,3), where t = Fired and a = True]
        by (intro exI [of _ "old[i := (old ! i)\<lparr>timeoutId := Fired, aborted := True\<rparr>]"]) simp
    qed
  qed
qed

subsection \<open>The invariant of the latest call\<close>

lemma calculatedProgress_mono:
  "t \<le> t' \<Longrightarrow> calculatedProgress s t \<le> calculatedProgress s t'"
  by (auto simp: calculatedProgress_def const_defs min_def divide_right_mono)

lemma calculatedProgress_start: "calculatedProgress s s = 20"
  by (simp add: calculatedProgress_def const_defs)

lemma calculatedProgress_le: "calculatedProgress s t \<le> 80"
  by (simp add: calculatedProgress_def const_defs)

lemma sorted_le_last: "sorted xs \<Longrightarrow> x \<in> set xs \<Longrightarrow> x \<le> last (xs::rat list)"
  by (induction xs) auto

lemma sorted_snoc_last:
  "sorted xs \<Longrightarrow> xs \<noteq> [] \<Longrightarrow> last xs \<le> v \<Longrightarrow> sorted (xs @ [v::rat])"
  by (auto simp: sorted_append dest: sorted_le_last)

lemma sorted_snoc2:
  "sorted xs \<Longrightarrow> xs \<noteq> [] \<Longrightarrow> last xs \<le> a \<Longrightarrow> a \<le> b \<Longrightarrow> sorted (xs @ [a, b::rat])"
  by (auto simp: sorted_append dest: sorted_le_last)

lemma butlast_snoc2: "butlast (xs @ [a, b]) = xs @ [a]"
  by (simp add: butlast_append)

lemma call_inv_calls_update: "call_inv L c (w\<lparr>calls := cs\<rparr>) = call_inv L c w"
  by (simp add: call_inv_def split: control.splits)

lemma call_inv_wall:
  "call_inv L c w \<Longrightarrow> wall w \<le> t \<Longrightarrow> clock w \<le> k \<Longrightarrow> call_inv L c (w\<lparr>clock := k, wall := t\<rparr>)"
  using calculatedProgress_mono [of "wall w" t "startTime c"]
  by (auto simp: call_inv_def split: control.splits)

lemma latest_inv_start:
  assumes "list_all quiescent (calls w0)" "jobUrl w0 \<noteq> []" "resume w0 = Some f"
  shows "latest_inv (progress_log w0) (length (calls w0)) (handleGenerate w0)"
  using assms
  unfolding latest_inv_def
  by (simp add: handleGenerate_def setProgress_def Let_def call_inv_def
        calculatedProgress_start const_defs)

lemma latest_inv_step:
  assumes "latest_inv pre n w" "undisturbed e"
  shows "latest_inv pre n (step w e)"
proof -
  from assms(1) obtain L old c where
    L: "progress_log w = pre @ L" "length old = n" and Lc: "calls w = old @ [c]"
    and Lq: "list_all quiescent old" and C0: "call_inv L c w"
    unfolding latest_inv_def by blast
  note C = C0 Lc Lq calculatedProgress_le [of "startTime c" "wall w"]
  have len: "length (calls w) = Suc n" using L Lc by simp
  have nth: "(old @ [c]) ! n = c" using L by (simp add: nth_append)
  have upd: "(old @ [c])[n := x] = old @ [x]" for x using L by (simp add: list_update_append)
  show ?thesis
  proof (cases e)
    case (SetJobUrl u)
    have "call_inv L c (w\<lparr>jobUrl := u\<rparr>)"
      using C0 by (auto simp: call_inv_def split: control.splits)
    then show ?thesis using L Lc Lq SetJobUrl by (auto simp: latest_inv_def)
  next
    case (FileChange f)
    have "call_inv L c (handleFileChange f w)"
      using C0
      by (auto simp: call_inv_def handleFileChange_def emit_toast_def
          split: control.splits option.splits)
    moreover have "progress_log (handleFileChange f w) = progress_log w"
      "calls (handleFileChange f w) = calls w"
      by (auto simp: handleFileChange_def emit_toast_def split: option.splits)
    ultimately show ?thesis using L Lc Lq FileChange by (auto simp: latest_inv_def)
  next
    case (Elapse d)
    have "call_inv L c (w\<lparr>clock := clock w + d, wall := wall w + int d\<rparr>)"
      using C0 by (intro call_inv_wall) simp_all
    then show ?thesis using L Lc Lq Elapse by (auto simp: latest_inv_def)
  next
    case (ClockAdjust d)
    then have "0 \<le> d" using assms(2) by simp
    then have "call_inv L c (w\<lparr>clock := clock w, wall := wall w + d\<rparr>)"
      using C0 by (intro call_inv_wall) simp_all
    then show ?thesis using L Lc Lq ClockAdjust by (auto simp: latest_inv_def)
  next
    case (IntervalTick i)
    consider (old) "i < n" | (latest) "i = n" | (none) "n < i" by linarith
    then show ?thesis
    proof cases
      case old
      then obtain old' where "step w e = w\<lparr>calls := old' @ [c]\<rparr>" "length old' = n"
        "list_all quiescent old'"
        using old_event [OF Lc Lq, of i e] L IntervalTick by blast
      then show ?thesis
        using L C unfolding latest_inv_def by (auto simp: call_inv_calls_update)
    next
      case latest
      then show ?thesis using L C IntervalTick nth
        unfolding latest_inv_def
        apply (simp add: progress_tick_def update_call_def setProgress_def split: timer.splits)
        apply (auto simp: upd call_inv_def is_pending_def sorted_snoc_last
            split: control.splits timer.splits)
        done
    next
      case none
      then show ?thesis using assms(1) len IntervalTick by (simp add: progress_tick_def)
    qed
  next
    case (FetchResolved i ok)
    consider (old) "i < n" | (latest) "i = n" | (none) "n < i" by linarith
    then show ?thesis
    proof cases
      case old
      then obtain old' where "step w e = w\<lparr>calls := old' @ [c]\<rparr>" "length old' = n"
        "list_all quiescent old'"
        using old_event [OF Lc Lq, of i e] L FetchResolved by blast
      then show ?thesis
        using L C unfolding latest_inv_def by (auto simp: call_inv_calls_update)
    next
      case latest
      then show ?thesis using L C FetchResolved nth
        unfolding latest_inv_def
        apply (simp add: fetch_resolved_def catch_block_def finally_block_def emit_toast_def
            update_call_def setProgress_def Let_def)
        apply (auto simp: upd call_inv_def not_pending_clearTimer sorted_snoc_last sorted_snoc2 butlast_snoc2 const_defs
            split: control.splits timer.splits)
        done
    next
      case none
      then show ?thesis using assms(1) len FetchResolved by (simp add: fetch_resolved_def)
    qed
  next
    case (FetchRejected i err)
    consider (old) "i < n" | (latest) "i = n" | (none) "n < i" by linarith
    then show ?thesis
    proof cases
      case old
      then obtain old' where "step w e = w\<lparr>calls := old' @ [c]\<rparr>" "length old' = n"
        "list_all quiescent old'"
        using old_event [OF Lc Lq, of i e] L FetchRejected by blast
      then show ?thesis
        using L C unfolding latest_inv_def by (auto simp: call_inv_calls_update)
    next
      case latest
      then show ?thesis using L C FetchRejected nth
        unfolding latest_inv_def
        apply (simp add: fetch_rejected_def catch_block_def finally_block_def emit_toast_def
            update_call_def setProgress_def Let_def)
        apply (auto simp: upd call_inv_def not_pending_clearTimer sorted_snoc_last sorted_snoc2 butlast_snoc2 const_defs
            split: control.splits timer.splits)
        done
    next
      case none
      then show ?thesis using assms(1) len FetchRejected by (simp add: fetch_rejected_def)
    qed
  next
    case (AbortTimeout i msg)
    consider (old) "i < n" | (latest) "i = n" | (none) "n < i" by linarith
    then show ?thesis
    proof cases
      case old
      then obtain old' where "step w e = w\<lparr>calls := old' @ [c]\<rparr>" "length old' = n"
        "list_all quiescent old'"
        using old_event [OF Lc Lq, of i e] L AbortTimeout by blast
      then show ?thesis
        using L C unfolding latest_inv_def by (auto simp: call_inv_calls_update)
    next
      case latest
      then show ?thesis using L C AbortTimeout nth
        unfolding latest_inv_def
        apply (simp add: abort_timeout_def fetch_rejected_def catch_block_def finally_block_def
            emit_toast_def update_call_def setProgress_def Let_def
            split: timer.splits)
        apply (auto simp: upd call_inv_def not_pending_clearTimer sorted_snoc_last sorted_snoc2 butlast_snoc2 const_defs
            split: control.splits timer.splits)
        done
    next
      case none
      then show ?thesis using assms(1) len AbortTimeout by (simp add: abort_timeout_def)
    qed
  next
    case (JsonResolved i d)
    consider (old) "i < n" | (latest) "i = n" | (none) "n < i" by linarith
    then show ?thesis
    proof cases
      case old
      then obtain old' where "step w e = w\<lparr>calls := old' @ [c]\<rparr>" "length old' = n"
        "list_all quiescent old'"
        using old_event [OF Lc Lq, of i e] L JsonResolved by blast
      then show ?thesis
        using L C unfolding latest_inv_def by (auto simp: call_inv_calls_update)
    next
      case latest
      then show ?thesis using L C JsonResolved nth
        unfolding latest_inv_def
        apply (simp add: json_resolved_def finally_block_def update_call_def setProgress_def Let_def)
        apply (auto simp: upd call_inv_def is_pending_def sorted_snoc_last const_defs
            split: control.splits timer.splits)
        done
    next
      case none
      then show ?thesis using assms(1) len JsonResolved by (simp add: json_resolved_def)
    qed
  next
    case (JsonRejected i err)
    consider (old) "i < n" | (latest) "i = n" | (none) "n < i" by linarith
    then show ?thesis
    proof cases
      case old
      then obtain old' where "step w e = w\<lparr>calls := old' @ [c]\<rparr>" "length old' = n"
        "list_all quiescent old'"
        using old_event [OF Lc Lq, of i e] L JsonRejected by blast
      then show ?thesis
        using L C unfolding latest_inv_def by (auto simp: call_inv_calls_update)
    next
      case latest
      then show ?thesis using L C JsonRejected nth
        unfolding latest_inv_def
        apply (simp add: json_rejected_def catch_block_def finally_block_def emit_toast_def
            update_call_def setProgress_def Let_def)
        apply (auto simp: upd call_inv_def not_pending_clearTimer sorted_snoc_last sorted_snoc2 butlast_snoc2 const_defs
            split: control.splits timer.splits)
        done
    next
      case none
      then show ?thesis using assms(1) len JsonRejected by (simp add: json_rejected_def)
    qed
  next
    case (CompleteTimeout i)
    consider (old) "i < n" | (latest) "i = n" | (none) "n < i" by linarith
    then show ?thesis
    proof cases
      case old
      then obtain old' where "step w e = w\<lparr>calls := old' @ [c]\<rparr>" "length old' = n"
        "list_all quiescent old'"
        using old_event [OF Lc Lq, of i e] L CompleteTimeout by blast
      then show ?thesis
        using L C unfolding latest_inv_def by (auto simp: call_inv_calls_update)
    next
      case latest
      then show ?thesis using L C CompleteTimeout nth
        unfolding latest_inv_def
        apply (simp add: complete_timeout_def emit_toast_def update_call_def setProgress_def
            split: timer.splits)
        apply (auto simp: upd call_inv_def is_pending_def sorted_snoc_last const_defs
            split: control.splits timer.splits)
        done
    next
      case none
      then show ?thesis using assms(1) len CompleteTimeout by (simp add: complete_timeout_def)
    qed
  qed (use assms in auto)
qed

lemma latest_inv_run:
  "latest_inv pre n w \<Longrightarrow> list_all undisturbed evs \<Longrightarrow> latest_inv pre n (run w evs)"
  unfolding run_def
  by (induction evs arbitrary: w) (auto simp: latest_inv_step)

subsection \<open>The invariant of the outcome\<close>

lemma outcome_inv_start:
  assumes "list_all quiescent (calls w0)" "jobUrl w0 \<noteq> []" "resume w0 = Some f"
  shows "outcome_inv (length (calls w0)) (handleGenerate w0)"
  using assms
  unfolding outcome_inv_def
  by (simp add: handleGenerate_def setProgress_def Let_def outcome_call_def)

lemma outcome_inv_step:
  assumes "outcome_inv n w" "no_submit e"
  shows "outcome_inv n (step w e)"
proof -
  from assms(1) obtain old c where
    L: "length old = n" and Lc: "calls w = old @ [c]" and Lq: "list_all quiescent old"
    and C0: "outcome_call c w"
    unfolding outcome_inv_def by blast
  note C = C0 Lc Lq
  have len: "length (calls w) = Suc n" using L Lc by simp
  have nth: "(old @ [c]) ! n = c" using L by (simp add: nth_append)
  have upd: "(old @ [c])[n := x] = old @ [x]" for x using L by (simp add: list_update_append)
  show ?thesis
  proof (cases e)
    case (SetJobUrl u)
    then show ?thesis using assms(1) by (auto simp: outcome_inv_def outcome_call_def split: control.splits)
  next
    case (FileChange f)
    then show ?thesis using assms(1)
      by (auto simp: outcome_inv_def outcome_call_def handleFileChange_def emit_toast_def
          split: option.splits control.splits)
  next
    case ClearForm
    then show ?thesis using assms(1)
      unfolding outcome_inv_def
      by (auto simp: outcome_call_def handleClear_def setProgress_def split: control.splits)
  next
    case (Elapse d)
    then show ?thesis using assms(1) by (auto simp: outcome_inv_def outcome_call_def split: control.splits)
  next
    case (ClockAdjust d)
    then show ?thesis using assms(1) by (auto simp: outcome_inv_def outcome_call_def split: control.splits)
  next
    case (IntervalTick i)
    consider (old) "i < n" | (latest) "i = n" | (none) "n < i" by linarith
    then show ?thesis
    proof cases
      case old
      then obtain old' where "step w e = w\<lparr>calls := old' @ [c]\<rparr>" "length old' = n"
        "list_all quiescent old'"
        using old_event [OF Lc Lq, of i e] L IntervalTick by blast
      then show ?thesis
        using C L unfolding outcome_inv_def by (auto simp: outcome_call_def split: control.splits)
    next
      case latest
      then show ?thesis using L C IntervalTick nth
        unfolding outcome_inv_def
        apply (simp add: progress_tick_def update_call_def setProgress_def split: timer.splits)
        apply (auto simp: upd outcome_call_def is_pending_def
            split: control.splits timer.splits)
        done
    next
      case none
      then show ?thesis using assms(1) len IntervalTick by (simp add: progress_tick_def)
    qed
  next
    case (FetchResolved i ok)
    consider (old) "i < n" | (latest) "i = n" | (none) "n < i" by linarith
    then show ?thesis
    proof cases
      case old
      then obtain old' where "step w e = w\<lparr>calls := old' @ [c]\<rparr>" "length old' = n"
        "list_all quiescent old'"
        using old_event [OF Lc Lq, of i e] L FetchResolved by blast
      then show ?thesis
        using C L unfolding outcome_inv_def by (auto simp: outcome_call_def split: control.splits)
    next
      case latest
      then show ?thesis using L C FetchResolved nth
        unfolding outcome_inv_def
        apply (simp add: fetch_resolved_def catch_block_def finally_block_def emit_toast_def
            update_call_def setProgress_def Let_def)
        apply (auto simp: upd outcome_call_def not_pending_clearTimer
            split: control.splits timer.splits)
        done
    next
      case none
      then show ?thesis using assms(1) len FetchResolved by (simp add: fetch_resolved_def)
    qed
  next
    case (FetchRejected i err)
    consider (old) "i < n" | (latest) "i = n" | (none) "n < i" by linarith
    then show ?thesis
    proof cases
      case old
      then obtain old' where "step w e = w\<lparr>calls := old' @ [c]\<rparr>" "length old' = n"
        "list_all quiescent old'"
        using old_event [OF Lc Lq, of i e] L FetchRejected by blast
      then show ?thesis
        using C L unfolding outcome_inv_def by (auto simp: outcome_call_def split: control.splits)
    next
      case latest
      then show ?thesis using L C FetchRejected nth
        unfolding outcome_inv_def
        apply (simp add: fetch_rejected_def catch_block_def finally_block_def emit_toast_def
            update_call_def setProgress_def Let_def)
        apply (auto simp: upd outcome_call_def not_pending_clearTimer
            split: control.splits timer.splits)
        done
    next
      case none
      then show ?thesis using assms(1) len FetchRejected by (simp add: fetch_rejected_def)
    qed
  next
    case (AbortTimeout i msg)
    consider (old) "i < n" | (latest) "i = n" | (none) "n < i" by linarith
    then show ?thesis
    proof cases
      case old
      then obtain old' where "step w e = w\<lparr>calls := old' @ [c]\<rparr>" "length old' = n"
        "list_all quiescent old'"
        using old_event [OF Lc Lq, of i e] L AbortTimeout by blast
      then show ?thesis
        using C L unfolding outcome_inv_def by (auto simp: outcome_call_def split: control.splits)
    next
      case latest
      then show ?thesis using L C AbortTimeout nth
        unfolding outcome_inv_def
        apply (simp add: abort_timeout_def fetch_rejected_def catch_block_def finally_block_def
            emit_toast_def update_call_def setProgress_def Let_def
            split: timer.splits)
        apply (auto simp: upd outcome_call_def not_pending_clearTimer
            split: control.splits timer.splits)
        done
    next
      case none
      then show ?thesis using assms(1) len AbortTimeout by (simp add: abort_timeout_def)
    qed
  next
    case (JsonResolved i d)
    consider (old) "i < n" | (latest) "i = n" | (none) "n < i" by linarith
    then show ?thesis
    proof cases
      case old
      then obtain old' where "step w e = w\<lparr>calls := old' @ [c]\<rparr>" "length old' = n"
        "list_all quiescent old'"
        using old_event [OF Lc Lq, of i e] L JsonResolved by blast
      then show ?thesis
        using C L unfolding outcome_inv_def by (auto simp: outcome_call_def split: control.splits)
    next
      case latest
      then show ?thesis using L C JsonResolved nth
        unfolding outcome_inv_def
        apply (simp add: json_resolved_def finally_block_def update_call_def setProgress_def Let_def)
        apply (auto simp: upd outcome_call_def is_pending_def
            split: control.splits timer.splits)
        done
    next
      case none
      then show ?thesis using assms(1) len JsonResolved by (simp add: json_resolved_def)
    qed
  next
    case (JsonRejected i err)
    consider (old) "i < n" | (latest) "i = n" | (none) "n < i" by linarith
    then show ?thesis
    proof cases
      case old
      then obtain old' where "step w e = w\<lparr>calls := old' @ [c]\<rparr>" "length old' = n"
        "list_all quiescent old'"
        using old_event [OF Lc Lq, of i e] L JsonRejected by blast
      then show ?thesis
        using C L unfolding outcome_inv_def by (auto simp: outcome_call_def split: control.splits)
    next
      case latest
      then show ?thesis using L C JsonRejected nth
        unfolding outcome_inv_def
        apply (simp add: json_rejected_def catch_block_def finally_block_def emit_toast_def
            update_call_def setProgress_def Let_def)
        apply (auto simp: upd outcome_call_def not_pending_clearTimer
            split: control.splits timer.splits)
        done
    next
      case none
      then show ?thesis using assms(1) len JsonRejected by (simp add: json_rejected_def)
    qed
  next
    case (CompleteTimeout i)
    consider (old) "i < n" | (latest) "i = n" | (none) "n < i" by linarith
    then show ?thesis
    proof cases
      case old
      then obtain old' where "step w e = w\<lparr>calls := old' @ [c]\<rparr>" "length old' = n"
        "list_all quiescent old'"
        using old_event [OF Lc Lq, of i e] L CompleteTimeout by blast
      then show ?thesis
        using C L unfolding outcome_inv_def by (auto simp: outcome_call_def split: control.splits)
    next
      case latest
      then show ?thesis using L C CompleteTimeout nth
        unfolding outcome_inv_def
        apply (simp add: complete_timeout_def emit_toast_def update_call_def setProgress_def
            split: timer.splits)
        apply (auto simp: upd outcome_call_def is_pending_def
            split: control.splits timer.splits)
        done
    next
      case none
      then show ?thesis using assms(1) len CompleteTimeout by (simp add: complete_timeout_def)
    qed
  qed (use assms in auto)
qed

lemma outcome_inv_run:
  "outcome_inv n w \<Longrightarrow> list_all no_submit evs \<Longrightarrow> outcome_inv n (run w evs)"
  unfolding run_def
  by (induction evs arbitrary: w) (auto simp: outcome_inv_step)

lemma caught_step:
  "no_submit e \<Longrightarrow> n < length (calls w) \<Longrightarrow> pc (calls w ! n) = Caught \<Longrightarrow>
     pc (calls (step w e) ! n) = Caught \<and> length (calls (step w e)) = length (calls w)"
  by (cases e)
     (auto simp: emit_toast_def setProgress_def progress_tick_def abort_timeout_def
        fetch_resolved_def fetch_rejected_def json_resolved_def json_rejected_def
        complete_timeout_def update_call_def finally_block_def catch_block_def Let_def
        handleFileChange_def handleClear_def nth_list_update
        split: option.splits timer.splits)

lemma caught_run:
  "list_all no_submit evs \<Longrightarrow> n < length (calls w) \<Longrightarrow> pc (calls w ! n) = Caught \<Longrightarrow>
     pc (calls (run w evs) ! n) = Caught"
  unfolding run_def
  by (induction evs arbitrary: w) (auto simp: caught_step)

subsection \<open>More sample worlds, evaluated\<close>

lemmas step_defs = run_def setProgress_def emit_toast_def progress_tick_def fetch_resolved_def
  fetch_rejected_def json_resolved_def json_rejected_def abort_timeout_def complete_timeout_def
  catch_block_def finally_block_def update_call_def clearTimer_def calculatedProgress_def
  failure_toast_def success_toast_def handleClear_def handleFileChange_def Let_def

lemma retry_eq:
  "retry =
     \<lparr>jobUrl = sample_url, resume = Some sample_pdf, isGenerating = False, result = None,
      progress = 0, clock = 0, wall = 0,
      calls = [\<lparr>startTime = 0, progressInterval = Cleared, timeoutId = Pending 120000,
               completeTimer = NotSet, aborted = False, pc = Caught\<rparr>],
      toasts = [failure_toast (ErrorObject (js ''Failed to fetch''))],
      progress_log = [0, 5, 10, 20, 0], fetch_log = [(sample_url, sample_pdf)]\<rparr>"
  by (simp add: retry_def in_flight_eq fetch_rejected_def catch_block_def finally_block_def
      emit_toast_def setProgress_def update_call_def clearTimer_def)

lemma retry_facts:
  "list_all quiescent (calls retry)" "jobUrl retry \<noteq> []" "resume retry = Some sample_pdf"
  "length (calls retry) = 1" "progress_log retry = [0, 5, 10, 20, 0]"
  using sample_url_nonempty by (simp_all add: retry_eq quiescent_def is_pending_def)

lemma ready_quiescent: "list_all quiescent (calls ready)"
  by (simp add: ready_facts)

lemma handleGenerate_retry: "handleGenerate retry = retry_flight"
  by (simp add: retry_flight_def)

lemma retry_flight_eq:
  "retry_flight =
     \<lparr>jobUrl = sample_url, resume = Some sample_pdf, isGenerating = True, result = None,
      progress = 20, clock = 0, wall = 0,
      calls = [\<lparr>startTime = 0, progressInterval = Cleared, timeoutId = Pending 120000,
               completeTimer = NotSet, aborted = False, pc = Caught\<rparr>,
              \<lparr>startTime = 0, progressInterval = Pending 500, timeoutId = Pending 120000,
               completeTimer = NotSet, aborted = False, pc = AwaitFetch\<rparr>],
      toasts = [failure_toast (ErrorObject (js ''Failed to fetch''))],
      progress_log = [0, 5, 10, 20, 0, 0, 5, 10, 20],
      fetch_log = [(sample_url, sample_pdf), (sample_url, sample_pdf)]\<rparr>"
  using sample_url_nonempty
  by (simp add: retry_flight_def retry_eq handleGenerate_def setProgress_def const_defs)

lemma after_success_eq:
  "after_success =
     \<lparr>jobUrl = sample_url, resume = Some sample_pdf, isGenerating = False,
      result = Some sample_response, progress = 95, clock = 0, wall = 0,
      calls = [\<lparr>startTime = 0, progressInterval = Cleared, timeoutId = Cleared,
               completeTimer = Pending 300, aborted = False, pc = Completed\<rparr>],
      toasts = [], progress_log = [0, 5, 10, 20, 85, 90, 95],
      fetch_log = [(sample_url, sample_pdf)]\<rparr>"
  by (simp add: after_success_def in_flight_eq step_defs const_defs)

lemma overlap_flight_eq:
  "overlap_flight =
     \<lparr>jobUrl = sample_url, resume = Some sample_pdf, isGenerating = True, result = None,
      progress = 20, clock = 0, wall = 0,
      calls = [\<lparr>startTime = 0, progressInterval = Cleared, timeoutId = Cleared,
               completeTimer = Pending 300, aborted = False, pc = Completed\<rparr>,
              \<lparr>startTime = 0, progressInterval = Pending 500, timeoutId = Pending 120000,
               completeTimer = NotSet, aborted = False, pc = AwaitFetch\<rparr>],
      toasts = [], progress_log = [0, 5, 10, 20, 85, 90, 95, 0, 5, 10, 20],
      fetch_log = [(sample_url, sample_pdf), (sample_url, sample_pdf)]\<rparr>"
  using sample_url_nonempty
  by (simp add: overlap_flight_def after_success_eq handleGenerate_def setProgress_def const_defs)

lemma run_success_log:
  "progress_log (run in_flight [Elapse 1000, SetJobUrl [], FileChange (Some sample_txt),
      ClockAdjust 250, IntervalTick 0, FetchResolved 0 True,
      JsonResolved 0 sample_response, Elapse 300, CompleteTimeout 0]) =
     [0, 5, 10, 20, 65 / 3, 85, 90, 95, 100]"
  "progress (run in_flight [Elapse 1000, SetJobUrl [], FileChange (Some sample_txt),
      ClockAdjust 250, IntervalTick 0, FetchResolved 0 True,
      JsonResolved 0 sample_response, Elapse 300, CompleteTimeout 0]) = 100"
  using sample_txt_invalid
  by (simp_all add: in_flight_eq step_defs const_defs)

lemma run_not_ok_log:
  "progress_log (run in_flight [Elapse 1000, IntervalTick 0, FetchResolved 0 False]) =
     [0, 5, 10, 20, 64 / 3, 85, 0]"
  by (simp add: in_flight_eq step_defs const_defs)

lemma run_retry_log:
  "progress_log (run retry_flight
      [Elapse 120000, AbortTimeout 0 (js ''The user aborted a request.''), IntervalTick 1,
       FetchResolved 1 True, JsonResolved 1 sample_response, Elapse 300, CompleteTimeout 1]) =
     [0, 5, 10, 20, 0, 0, 5, 10, 20, 80, 85, 90, 95, 100]"
  by (simp add: retry_flight_eq step_defs const_defs)

lemma overlap_examples:
  "\<not> isGenerating after_success" "jobUrl after_success \<noteq> []"
  "resume after_success = Some sample_pdf"
  "progress_log after_success = [0, 5, 10, 20, 85, 90, 95]"
  "pc (calls (run overlap_flight [Elapse 300, CompleteTimeout 0, Elapse 700, IntervalTick 1]) ! 1)
     = AwaitFetch"
  "progress_log (run overlap_flight [Elapse 300, CompleteTimeout 0, Elapse 700, IntervalTick 1]) =
     [0, 5, 10, 20, 85, 90, 95, 0, 5, 10, 20, 100, 64 / 3]"
  "pc (calls (run overlap_flight [FetchRejected 1 (ErrorObject (js ''Failed to fetch'')),
      Elapse 300, CompleteTimeout 0]) ! 1) = Caught"
  "progress (run overlap_flight [FetchRejected 1 (ErrorObject (js ''Failed to fetch'')),
      Elapse 300, CompleteTimeout 0]) = 100"
  "last (toasts (run overlap_flight [FetchRejected 1 (ErrorObject (js ''Failed to fetch'')),
      Elapse 300, CompleteTimeout 0])) = success_toast"
  using sample_url_nonempty
  by (simp_all add: after_success_eq overlap_flight_eq step_defs const_defs)

lemma disturbed_examples:
  "progress_log (run in_flight [ClearForm, FetchResolved 0 True]) = [0, 5, 10, 20, 0, 85, 90]"
  "pc (calls (run in_flight [ClearForm, FetchResolved 0 True]) ! 0) = AwaitJson"
  "progress_log (run in_flight [Elapse 500, ClockAdjust (- 23000), IntervalTick 0]) =
     [0, 5, 10, 20, - 10]"
  "pc (calls (run in_flight [Elapse 500, ClockAdjust (- 23000), IntervalTick 0]) ! 0) = AwaitFetch"
  by (simp_all add: in_flight_eq step_defs const_defs)

subsection \<open>Progress\<close>

lemma not_sorted_examples:
  "\<not> sorted [0, 5, 10, 20, 100, 64 / 3 :: rat]"
  "\<not> sorted [0, 5, 10, 20, 0, 85, 90 :: rat]"
  "\<not> sorted [0, 5, 10, 20, - 10 :: rat]"
  by code_simp+

lemma handleGenerate_after_success: "handleGenerate after_success = overlap_flight"
  by (simp add: overlap_flight_def)

lemma overlap_log:
  "progress_log (run overlap_flight [Elapse 300, CompleteTimeout 0, Elapse 700, IntervalTick 1]) =
     progress_log after_success @ [0, 5, 10, 20, 100, 64 / 3]"
  by (simp only: overlap_examples) simp

text \<open>
  Three runs in which the values passed to \<open>setProgress\<close> decrease although the
  latest call has not failed. In the first the form is submitted again while the 300 ms
  timer of the call that just succeeded is pending (\<open>isGenerating\<close> is false by then):
  the timer fires during the new call and sets 100, then the interval of the new call
  ticks. In the second the form is cleared while the call awaits its fetch, which then
  resolves. In the third the wall clock is set back by 23 s between the start of the
  call and a tick of its interval.
\<close>

theorem progress_decreases_counterexample:
  "\<not> isGenerating after_success \<and> jobUrl after_success \<noteq> [] \<and>
   resume after_success = Some sample_pdf \<and>
   pc (calls (run (handleGenerate after_success)
         [Elapse 300, CompleteTimeout 0, Elapse 700, IntervalTick 1]) ! 1) = AwaitFetch \<and>
   progress_log (run (handleGenerate after_success)
         [Elapse 300, CompleteTimeout 0, Elapse 700, IntervalTick 1]) =
     progress_log after_success @ [0, 5, 10, 20, 100, 64 / 3] \<and>
   \<not> sorted [0, 5, 10, 20, 100, 64 / 3 :: rat] \<and>
   pc (calls (run in_flight [ClearForm, FetchResolved 0 True]) ! 0) = AwaitJson \<and>
   progress_log (run in_flight [ClearForm, FetchResolved 0 True]) = [0, 5, 10, 20, 0, 85, 90] \<and>
   \<not> sorted [0, 5, 10, 20, 0, 85, 90 :: rat] \<and>
   pc (calls (run in_flight [Elapse 500, ClockAdjust (- 23000), IntervalTick 0]) ! 0)
     = AwaitFetch \<and>
   progress_log (run in_flight [Elapse 500, ClockAdjust (- 23000), IntervalTick 0]) =
     [0, 5, 10, 20, - 10] \<and>
   \<not> sorted [0, 5, 10, 20, - 10 :: rat]"
  unfolding handleGenerate_after_success
  using overlap_examples(1-3,5) overlap_log disturbed_examples not_sorted_examples
  by (intro conjI) assumption+

text \<open>
  C2, as the source behaves. A call starts from a world in which every earlier call is
  over and a job URL and a resume are present. Until the form is submitted again, and
  as long as it is not cleared and the wall clock does not step back, whatever else
  happens (time passes, the wall clock steps forward, timers fire, promises settle,
  also those of earlier calls, the URL or the file is edited), the values passed to
  \<open>setProgress\<close> since the call began start at 0 and end at the current progress;
  they are non-decreasing as long as the call has not failed, and when it has failed
  they are non-decreasing up to a final 0. A call that completed has stored a result
  and reaches 100 when its 300 ms timer fires.
\<close>

theorem progress_monotone:
  assumes "list_all quiescent (calls w0)" and "jobUrl w0 \<noteq> []" and "resume w0 = Some f"
    and "list_all undisturbed evs" and "w = run (handleGenerate w0) evs"
    and "n = length (calls w0)"
  shows "\<exists>L. progress_log w = progress_log w0 @ L \<and> L \<noteq> [] \<and> hd L = 0 \<and>
           last L = progress w \<and>
           (pc (calls w ! n) \<noteq> Caught \<longrightarrow> sorted L) \<and>
           (pc (calls w ! n) = Caught \<longrightarrow> sorted (butlast L) \<and> last L = 0) \<and>
           (pc (calls w ! n) = Completed \<longrightarrow>
              result w \<noteq> None \<and> progress (run w [Elapse 300, CompleteTimeout n]) = COMPLETE) \<and>
           (completeTimer (calls w ! n) = Fired \<longrightarrow> progress w = COMPLETE)"
proof -
  have "latest_inv (progress_log w0) n w"
    using assms by (simp add: latest_inv_start latest_inv_run)
  then obtain L old c where L: "progress_log w = progress_log w0 @ L" "calls w = old @ [c]"
    "length old = n" and C: "call_inv L c w"
    unfolding latest_inv_def by blast
  have nth: "calls w ! n = c" using L by (simp add: nth_append)
  have "progress (run w [Elapse 300, CompleteTimeout n]) = COMPLETE" if "pc c = Completed"
    using that C L nth
    by (auto simp: call_inv_def run_def complete_timeout_def setProgress_def emit_toast_def
        update_call_def COMPLETE_def)
  then show ?thesis
    using L(1) C nth
    by (intro exI [of _ L]) (auto simp: call_inv_def is_pending_def split: control.splits)
qed

theorem progress_monotone_witness:
  "list_all quiescent (calls ready) \<and> jobUrl ready \<noteq> [] \<and> resume ready = Some sample_pdf \<and>
   list_all undisturbed [Elapse 1000, SetJobUrl [], FileChange (Some sample_txt),
      ClockAdjust 250, IntervalTick 0, FetchResolved 0 True,
      JsonResolved 0 sample_response, Elapse 300, CompleteTimeout 0] \<and>
   progress_log (run (handleGenerate ready) [Elapse 1000, SetJobUrl [],
      FileChange (Some sample_txt), ClockAdjust 250, IntervalTick 0, FetchResolved 0 True,
      JsonResolved 0 sample_response, Elapse 300, CompleteTimeout 0]) =
     [0, 5, 10, 20, 65 / 3, 85, 90, 95, 100] \<and>
   progress (run (handleGenerate ready) [Elapse 1000, SetJobUrl [],
      FileChange (Some sample_txt), ClockAdjust 250, IntervalTick 0, FetchResolved 0 True,
      JsonResolved 0 sample_response, Elapse 300, CompleteTimeout 0]) = 100 \<and>
   progress_log (run (handleGenerate ready) [Elapse 1000, IntervalTick 0, FetchResolved 0 False]) =
     [0, 5, 10, 20, 64 / 3, 85, 0] \<and>
   list_all quiescent (calls retry) \<and> jobUrl retry \<noteq> [] \<and> resume retry = Some sample_pdf \<and>
   list_all undisturbed
      [Elapse 120000, AbortTimeout 0 (js ''The user aborted a request.''), IntervalTick 1,
       FetchResolved 1 True, JsonResolved 1 sample_response, Elapse 300, CompleteTimeout 1] \<and>
   progress_log (run (handleGenerate retry)
      [Elapse 120000, AbortTimeout 0 (js ''The user aborted a request.''), IntervalTick 1,
       FetchResolved 1 True, JsonResolved 1 sample_response, Elapse 300, CompleteTimeout 1]) =
     progress_log retry @ [0, 5, 10, 20, 80, 85, 90, 95, 100]"
proof -
  have e1: "list_all undisturbed [Elapse 1000, SetJobUrl [], FileChange (Some sample_txt),
      ClockAdjust 250, IntervalTick 0, FetchResolved 0 True,
      JsonResolved 0 sample_response, Elapse 300, CompleteTimeout 0]"
    and e2: "list_all undisturbed
      [Elapse 120000, AbortTimeout 0 (js ''The user aborted a request.''), IntervalTick 1,
       FetchResolved 1 True, JsonResolved 1 sample_response, Elapse 300, CompleteTimeout 1]"
    by simp_all
  have "\<exists>L. progress_log (run (handleGenerate ready) [Elapse 1000, SetJobUrl [],
      FileChange (Some sample_txt), ClockAdjust 250, IntervalTick 0,
      FetchResolved 0 True, JsonResolved 0 sample_response, Elapse 300, CompleteTimeout 0]) =
        progress_log ready @ L"
    using progress_monotone [OF ready_quiescent ready_facts(2,3) e1 refl refl] by blast
  moreover have "\<exists>L. progress_log (run (handleGenerate retry)
      [Elapse 120000, AbortTimeout 0 (js ''The user aborted a request.''), IntervalTick 1,
       FetchResolved 1 True, JsonResolved 1 sample_response, Elapse 300, CompleteTimeout 1]) =
        progress_log retry @ L"
    using progress_monotone [OF retry_facts(1,2,3) e2 refl refl] by blast
  ultimately show ?thesis
    using e1 e2 ready_quiescent ready_facts(2,3) retry_facts(1,2,3,5)
    by (simp only: handleGenerate_ready handleGenerate_retry run_success_log run_not_ok_log
        run_retry_log) simp
qed

subsection \<open>Failure\<close>

lemma run_append: "run w (xs @ ys) = run (run w xs) ys"
  by (simp add: run_def)

text \<open>
  The form is submitted again while the 300 ms timer of the call that just succeeded is
  pending, and the fetch of the new call is rejected. The new call has ended in
  \<open>catch\<close>; the timer of the earlier call then fires, sets progress to 100 and emits
  the notice of success.
\<close>

theorem stale_success_after_failure_counterexample:
  "\<not> isGenerating after_success \<and> jobUrl after_success \<noteq> [] \<and>
   resume after_success = Some sample_pdf \<and>
   pc (calls (run (handleGenerate after_success)
         [FetchRejected 1 (ErrorObject (js ''Failed to fetch'')), Elapse 300,
          CompleteTimeout 0]) ! 1) = Caught \<and>
   progress (run (handleGenerate after_success)
         [FetchRejected 1 (ErrorObject (js ''Failed to fetch'')), Elapse 300,
          CompleteTimeout 0]) = 100 \<and>
   last (toasts (run (handleGenerate after_success)
         [FetchRejected 1 (ErrorObject (js ''Failed to fetch'')), Elapse 300,
          CompleteTimeout 0])) = success_toast"
  unfolding handleGenerate_after_success
  using overlap_examples(1-3,7-9)
  by (intro conjI) assumption+

text \<open>
  C3, as the source behaves. Whatever the state of the hook, each way a call can fail
  after validation (the fetch promise rejects, the response is not ok, the 120 s timer
  armed by the call fires while the fetch is pending, decoding the body fails) leaves
  that call in \<open>catch\<close> with its progress interval stopped, progress 0,
  \<open>isGenerating\<close> false, the stored result as it was, and one destructive notice
  titled "Generation failed" emitted, whose description is the message of the error
  thrown ("Failed to generate email" for a response that is not ok, "Please try again"
  for a thrown value that is not an \<open>Error\<close>); before its due time the 120 s timer does
  nothing. When the call started from a world in which every earlier call was over,
  then once it has failed progress is 0, no result is stored, a tick of its interval
  and its 300 ms timer change nothing, and this stays so whatever happens later, until
  the form is submitted again.
\<close>

theorem failure_resets:
  "(i < length (calls w) \<and> pc (calls w ! i) = AwaitFetch \<longrightarrow>
      failed_with i m w (fetch_rejected i (ErrorObject m) w) \<and>
      failed_with i (js ''Please try again'') w (fetch_rejected i OtherValue w) \<and>
      failed_with i (js ''Failed to generate email'') w (fetch_resolved i False w) \<and>
      (timeoutId (calls w ! i) = Pending due \<and> due \<le> clock w \<longrightarrow>
         failed_with i msg w (abort_timeout i msg w)) \<and>
      (timeoutId (calls w ! i) = Pending due \<and> clock w < due \<longrightarrow>
         abort_timeout i msg w = w)) \<and>
   (i < length (calls w) \<and> pc (calls w ! i) = AwaitJson \<longrightarrow>
      failed_with i m w (json_rejected i (ErrorObject m) w) \<and>
      failed_with i (js ''Please try again'') w (json_rejected i OtherValue w)) \<and>
   (jobUrl w0 \<noteq> [] \<and> resume w0 = Some f \<longrightarrow>
      pc (calls (handleGenerate w0) ! length (calls w0)) = AwaitFetch \<and>
      timeoutId (calls (handleGenerate w0) ! length (calls w0)) = Pending (clock w0 + 120000)) \<and>
   (list_all quiescent (calls w0) \<and> jobUrl w0 \<noteq> [] \<and> resume w0 = Some f \<and>
    list_all no_submit evs \<and>
    pc (calls (run (handleGenerate w0) evs) ! length (calls w0)) = Caught \<longrightarrow>
      progress (run (handleGenerate w0) evs) = 0 \<and>
      result (run (handleGenerate w0) evs) = None \<and>
      \<not> isGenerating (run (handleGenerate w0) evs) \<and>
      progress_tick (length (calls w0)) (run (handleGenerate w0) evs) =
        run (handleGenerate w0) evs \<and>
      complete_timeout (length (calls w0)) (run (handleGenerate w0) evs) =
        run (handleGenerate w0) evs \<and>
      (list_all no_submit later \<longrightarrow>
         pc (calls (run (run (handleGenerate w0) evs) later) ! length (calls w0)) = Caught \<and>
         progress (run (run (handleGenerate w0) evs) later) = 0 \<and>
         result (run (run (handleGenerate w0) evs) later) = None \<and>
         \<not> isGenerating (run (run (handleGenerate w0) evs) later)))"
  (is "?fetch \<and> ?json \<and> ?armed \<and> ?after")
proof -
  have fetch: "failed_with i (description (failure_toast x)) w (fetch_rejected i x w)"
    if "i < length (calls w)" "pc (calls w ! i) = AwaitFetch" for x
    using that
    by (simp add: failed_with_def fetch_rejected_def catch_block_def finally_block_def
        emit_toast_def setProgress_def update_call_def not_pending_clearTimer failure_toast_def)
  have notok: "failed_with i (js ''Failed to generate email'') w (fetch_resolved i False w)"
    if "i < length (calls w)" "pc (calls w ! i) = AwaitFetch"
    using that
    by (simp add: failed_with_def fetch_resolved_def catch_block_def finally_block_def
        emit_toast_def setProgress_def update_call_def not_pending_clearTimer Let_def
        failure_toast_def)
  have timeout: "failed_with i msg w (abort_timeout i msg w)"
    if "i < length (calls w)" "pc (calls w ! i) = AwaitFetch"
      "timeoutId (calls w ! i) = Pending due" "due \<le> clock w"
    using that
    by (simp add: failed_with_def abort_timeout_def fetch_rejected_def catch_block_def
        finally_block_def emit_toast_def setProgress_def update_call_def
        not_pending_clearTimer failure_toast_def)
  have early: "abort_timeout i msg w = w"
    if "i < length (calls w)" "timeoutId (calls w ! i) = Pending due" "clock w < due"
    using that by (simp add: abort_timeout_def)
  have json: "failed_with i (description (failure_toast x)) w (json_rejected i x w)"
    if "i < length (calls w)" "pc (calls w ! i) = AwaitJson" for x
    using that
    by (simp add: failed_with_def json_rejected_def catch_block_def finally_block_def
        emit_toast_def setProgress_def update_call_def not_pending_clearTimer failure_toast_def)
  have armed: "pc (calls (handleGenerate w0) ! length (calls w0)) = AwaitFetch \<and>
      timeoutId (calls (handleGenerate w0) ! length (calls w0)) = Pending (clock w0 + 120000)"
    if "jobUrl w0 \<noteq> []" "resume w0 = Some f"
    using that
    by (simp add: handleGenerate_def setProgress_def Let_def REQUEST_TIMEOUT_def)
  have after: "progress (run (handleGenerate w0) xs) = 0 \<and>
      result (run (handleGenerate w0) xs) = None \<and>
      \<not> isGenerating (run (handleGenerate w0) xs) \<and>
      progress_tick (length (calls w0)) (run (handleGenerate w0) xs) =
        run (handleGenerate w0) xs \<and>
      complete_timeout (length (calls w0)) (run (handleGenerate w0) xs) =
        run (handleGenerate w0) xs"
    if "list_all quiescent (calls w0)" "jobUrl w0 \<noteq> []" "resume w0 = Some f"
      "list_all no_submit xs"
      "pc (calls (run (handleGenerate w0) xs) ! length (calls w0)) = Caught" for xs
  proof -
    have "outcome_inv (length (calls w0)) (run (handleGenerate w0) xs)"
      using that by (simp add: outcome_inv_start outcome_inv_run)
    then obtain old c where L: "calls (run (handleGenerate w0) xs) = old @ [c]"
      "length old = length (calls w0)" and C: "outcome_call c (run (handleGenerate w0) xs)"
      unfolding outcome_inv_def by blast
    have nth: "calls (run (handleGenerate w0) xs) ! length (calls w0) = c"
      using L by (simp add: nth_append)
    then show ?thesis
      using C that(5) L
      by (auto simp: outcome_call_def progress_tick_def complete_timeout_def is_pending_def
          split: timer.splits)
  qed
  have later: "pc (calls (run (run (handleGenerate w0) evs) later) ! length (calls w0)) = Caught \<and>
         progress (run (run (handleGenerate w0) evs) later) = 0 \<and>
         result (run (run (handleGenerate w0) evs) later) = None \<and>
         \<not> isGenerating (run (run (handleGenerate w0) evs) later)"
    if "list_all quiescent (calls w0)" "jobUrl w0 \<noteq> []" "resume w0 = Some f"
      "list_all no_submit evs"
      "pc (calls (run (handleGenerate w0) evs) ! length (calls w0)) = Caught"
      "list_all no_submit later"
  proof -
    have "outcome_inv (length (calls w0)) (run (handleGenerate w0) evs)"
      using that by (simp add: outcome_inv_start outcome_inv_run)
    then have len: "length (calls w0) < length (calls (run (handleGenerate w0) evs))"
      unfolding outcome_inv_def by auto
    have c: "pc (calls (run (run (handleGenerate w0) evs) later) ! length (calls w0)) = Caught"
      using caught_run [OF that(6) len that(5)] .
    have "list_all no_submit (evs @ later)"
      using that(4,6) by simp
    from after [OF that(1-3) this] c show ?thesis
      by (simp add: run_append)
  qed
  have f1: "failed_with i m w (fetch_rejected i (ErrorObject m) w)"
    "failed_with i (js ''Please try again'') w (fetch_rejected i OtherValue w)"
    if "i < length (calls w)" "pc (calls w ! i) = AwaitFetch"
    using fetch [OF that, of "ErrorObject m"] fetch [OF that, of OtherValue]
    by (simp_all add: failure_toast_def)
  have j1: "failed_with i m w (json_rejected i (ErrorObject m) w)"
    "failed_with i (js ''Please try again'') w (json_rejected i OtherValue w)"
    if "i < length (calls w)" "pc (calls w ! i) = AwaitJson"
    using json [OF that, of "ErrorObject m"] json [OF that, of OtherValue]
    by (simp_all add: failure_toast_def)
  have 1: ?fetch
    using f1 notok timeout early by (intro impI conjI) (elim conjE, simp)+
  have 2: ?json
    using j1 by simp
  have 3: ?armed
    using armed by simp
  have 4: ?after
  proof (intro impI, elim conjE)
    assume h: "list_all quiescent (calls w0)" "jobUrl w0 \<noteq> []" "resume w0 = Some f"
      "list_all no_submit evs"
      "pc (calls (run (handleGenerate w0) evs) ! length (calls w0)) = Caught"
    show "progress (run (handleGenerate w0) evs) = 0 \<and>
      result (run (handleGenerate w0) evs) = None \<and>
      \<not> isGenerating (run (handleGenerate w0) evs) \<and>
      progress_tick (length (calls w0)) (run (handleGenerate w0) evs) =
        run (handleGenerate w0) evs \<and>
      complete_timeout (length (calls w0)) (run (handleGenerate w0) evs) =
        run (handleGenerate w0) evs \<and>
      (list_all no_submit later \<longrightarrow>
         pc (calls (run (run (handleGenerate w0) evs) later) ! length (calls w0)) = Caught \<and>
         progress (run (run (handleGenerate w0) evs) later) = 0 \<and>
         result (run (run (handleGenerate w0) evs) later) = None \<and>
         \<not> isGenerating (run (run (handleGenerate w0) evs) later))"
      using after [OF h] later [OF h] by blast
  qed
  show ?thesis
    using 1 2 3 4 by (intro conjI)
qed

lemma failure_examples:
  "0 < length (calls in_flight)"
  "pc (calls in_flight ! 0) = AwaitFetch"
  "timeoutId (calls in_flight ! 0) = Pending 120000"
  "clock in_flight < 120000"
  "0 < length (calls (run in_flight [Elapse 120000]))"
  "pc (calls (run in_flight [Elapse 120000]) ! 0) = AwaitFetch"
  "timeoutId (calls (run in_flight [Elapse 120000]) ! 0) = Pending 120000"
  "120000 \<le> clock (run in_flight [Elapse 120000])"
  "0 < length (calls (run in_flight [FetchResolved 0 True]))"
  "pc (calls (run in_flight [FetchResolved 0 True]) ! 0) = AwaitJson"
  "pc (calls (run in_flight [Elapse 1000, IntervalTick 0, FetchResolved 0 False]) ! 0) = Caught"
  "toasts in_flight = []"
  "result in_flight = None"
  by (simp_all add: in_flight_eq step_defs const_defs)

theorem failure_resets_witness:
  "pc (calls in_flight ! 0) = AwaitFetch \<and>
   failed_with 0 (js ''Failed to fetch'') in_flight
     (fetch_rejected 0 (ErrorObject (js ''Failed to fetch'')) in_flight) \<and>
   toasts (fetch_rejected 0 (ErrorObject (js ''Failed to fetch'')) in_flight) =
     [\<lparr>title = js ''Generation failed'', description = js ''Failed to fetch'',
       variant = destructive\<rparr>] \<and>
   progress (fetch_rejected 0 (ErrorObject (js ''Failed to fetch'')) in_flight) = 0 \<and>
   toasts (fetch_rejected 0 OtherValue in_flight) =
     [\<lparr>title = js ''Generation failed'', description = js ''Please try again'',
       variant = destructive\<rparr>] \<and>
   toasts (fetch_resolved 0 False in_flight) =
     [\<lparr>title = js ''Generation failed'', description = js ''Failed to generate email'',
       variant = destructive\<rparr>] \<and>
   timeoutId (calls in_flight ! 0) = Pending 120000 \<and> clock in_flight < 120000 \<and>
   abort_timeout 0 (js ''The user aborted a request.'') in_flight = in_flight \<and>
   pc (calls (run in_flight [Elapse 120000]) ! 0) = AwaitFetch \<and>
   timeoutId (calls (run in_flight [Elapse 120000]) ! 0) = Pending 120000 \<and>
   120000 \<le> clock (run in_flight [Elapse 120000]) \<and>
   failed_with 0 (js ''The user aborted a request.'') (run in_flight [Elapse 120000])
     (abort_timeout 0 (js ''The user aborted a request.'') (run in_flight [Elapse 120000])) \<and>
   pc (calls (run in_flight [FetchResolved 0 True]) ! 0) = AwaitJson \<and>
   failed_with 0 (js ''Unexpected token'') (run in_flight [FetchResolved 0 True])
     (json_rejected 0 (ErrorObject (js ''Unexpected token''))
        (run in_flight [FetchResolved 0 True])) \<and>
   jobUrl ready \<noteq> [] \<and> resume ready = Some sample_pdf \<and>
   list_all quiescent (calls ready) \<and> length (calls ready) = 0 \<and>
   timeoutId (calls (handleGenerate ready) ! 0) = Pending (clock ready + 120000) \<and>
   list_all no_submit [Elapse 1000, IntervalTick 0, FetchResolved 0 False] \<and>
   pc (calls (run (handleGenerate ready) [Elapse 1000, IntervalTick 0, FetchResolved 0 False]) ! 0)
     = Caught \<and>
   progress (run (handleGenerate ready) [Elapse 1000, IntervalTick 0, FetchResolved 0 False]) = 0 \<and>
   list_all no_submit [ClearForm, Elapse 500, IntervalTick 0, Elapse 120000,
      AbortTimeout 0 (js ''The user aborted a request.''), SetJobUrl sample_url,
      FileChange (Some sample_pdf), ClockAdjust (- 5000)] \<and>
   progress (run (run (handleGenerate ready) [Elapse 1000, IntervalTick 0, FetchResolved 0 False])
     [ClearForm, Elapse 500, IntervalTick 0, Elapse 120000,
      AbortTimeout 0 (js ''The user aborted a request.''), SetJobUrl sample_url,
      FileChange (Some sample_pdf), ClockAdjust (- 5000)]) = 0"
proof -
  have e1: "list_all no_submit [Elapse 1000, IntervalTick 0, FetchResolved 0 False]"
    and e2: "list_all no_submit [ClearForm, Elapse 500, IntervalTick 0, Elapse 120000,
      AbortTimeout 0 (js ''The user aborted a request.''), SetJobUrl sample_url,
      FileChange (Some sample_pdf), ClockAdjust (- 5000)]"
    by simp_all
  have n0: "length (calls ready) = 0"
    by (simp add: ready_facts)
  have c: "pc (calls (run (handleGenerate ready)
      [Elapse 1000, IntervalTick 0, FetchResolved 0 False]) ! 0) = Caught"
    by (simp only: handleGenerate_ready failure_examples)
  have a: "failed_with 0 (js ''Failed to fetch'') in_flight
       (fetch_rejected 0 (ErrorObject (js ''Failed to fetch'')) in_flight) \<and>
     failed_with 0 (js ''Please try again'') in_flight (fetch_rejected 0 OtherValue in_flight) \<and>
     failed_with 0 (js ''Failed to generate email'') in_flight (fetch_resolved 0 False in_flight) \<and>
     abort_timeout 0 (js ''The user aborted a request.'') in_flight = in_flight \<and>
     timeoutId (calls (handleGenerate ready) ! 0) = Pending (clock ready + 120000) \<and>
     progress (run (handleGenerate ready) [Elapse 1000, IntervalTick 0, FetchResolved 0 False]) = 0 \<and>
     progress (run (run (handleGenerate ready) [Elapse 1000, IntervalTick 0, FetchResolved 0 False])
       [ClearForm, Elapse 500, IntervalTick 0, Elapse 120000,
        AbortTimeout 0 (js ''The user aborted a request.''), SetJobUrl sample_url,
        FileChange (Some sample_pdf), ClockAdjust (- 5000)]) = 0"
    using failure_resets [where i = 0 and w = in_flight and m = "js ''Failed to fetch''"
        and due = 120000 and msg = "js ''The user aborted a request.''" and ?w0.0 = ready
        and f = sample_pdf and evs = "[Elapse 1000, IntervalTick 0, FetchResolved 0 False]"
        and later = "[ClearForm, Elapse 500, IntervalTick 0, Elapse 120000,
          AbortTimeout 0 (js ''The user aborted a request.''), SetJobUrl sample_url,
          FileChange (Some sample_pdf), ClockAdjust (- 5000)]"]
      failure_examples(1-4) ready_quiescent ready_facts(2,3) e1 e2 c n0
    by (simp only: n0) blast
  have b: "failed_with 0 (js ''The user aborted a request.'') (run in_flight [Elapse 120000])
     (abort_timeout 0 (js ''The user aborted a request.'') (run in_flight [Elapse 120000]))"
    using failure_resets [where i = 0 and w = "run in_flight [Elapse 120000]"
        and due = 120000 and msg = "js ''The user aborted a request.''"]
      failure_examples(5-8)
    by blast
  have d: "failed_with 0 (js ''Unexpected token'') (run in_flight [FetchResolved 0 True])
     (json_rejected 0 (ErrorObject (js ''Unexpected token''))
        (run in_flight [FetchResolved 0 True]))"
    using failure_resets [where i = 0 and w = "run in_flight [FetchResolved 0 True]"
        and m = "js ''Unexpected token''"]
      failure_examples(9,10)
    by blast
  have t: "toasts (fetch_rejected 0 (ErrorObject (js ''Failed to fetch'')) in_flight) =
     [\<lparr>title = js ''Generation failed'', description = js ''Failed to fetch'',
       variant = destructive\<rparr>]"
    "progress (fetch_rejected 0 (ErrorObject (js ''Failed to fetch'')) in_flight) = 0"
    "toasts (fetch_rejected 0 OtherValue in_flight) =
     [\<lparr>title = js ''Generation failed'', description = js ''Please try again'',
       variant = destructive\<rparr>]"
    "toasts (fetch_resolved 0 False in_flight) =
     [\<lparr>title = js ''Generation failed'', description = js ''Failed to generate email'',
       variant = destructive\<rparr>]"
    using a by (simp_all only: failed_with_def failure_examples(12) append_Nil)
  show ?thesis
    using a b d t c e1 e2 n0 failure_examples(2,3,4,6,7,8,10) ready_quiescent ready_facts(2,3)
    by (intro conjI) (elim conjE, assumption)+
qed

section \<open>Properties of the staged reveal\<close>

lemmas cf_defs = cf_mount_def cf_update_def cf_unmount_def agents_effect_def agents_cleanup_def
  final_effect_def final_cleanup_def agents_timeout_def final_timeout_def same_result_def

lemma cf_inv_initial: "cf_inv cf_initial"
  by (simp add: cf_inv_def cf_initial_def is_pending_def)

lemma cf_inv_step: "cf_inv c \<Longrightarrow> cf_inv (cf_step c e)"
  by (cases e)
     (auto simp: cf_inv_def cf_defs is_pending_def clearTimer_def Let_def
        split: timer.splits option.splits if_splits)

lemma cf_inv_run: "cf_inv c \<Longrightarrow> cf_inv (cf_run c evs)"
  unfolding cf_run_def by (induction evs arbitrary: c) (auto simp: cf_inv_step)

lemma cf_agents_inv_initial: "cf_agents_inv cf_initial"
  by (simp add: cf_agents_inv_def cf_initial_def is_pending_def)

lemma cf_agents_inv_step:
  assumes "cf_agents_inv c"
  shows "cf_agents_inv (cf_step c e)"
proof (cases e)
  case (Mount p)
  then show ?thesis using assms
    by (auto simp: cf_agents_inv_def cf_mount_def agents_effect_def final_effect_def
        is_pending_def split: option.splits)
next
  case (Update p)
  then show ?thesis using assms Update
    by (auto simp: cf_agents_inv_def cf_update_def agents_effect_def agents_cleanup_def
        final_effect_def final_cleanup_def is_pending_def clearTimer_def Let_def
        split: option.splits timer.splits)
next
  case Unmount
  then show ?thesis using assms
    by (auto simp: cf_agents_inv_def cf_unmount_def agents_cleanup_def final_cleanup_def
        is_pending_def clearTimer_def split: timer.splits)
next
  case (Wait d)
  then show ?thesis using assms Wait by (simp add: cf_agents_inv_def)
next
  case AgentsTimeout
  then show ?thesis using assms AgentsTimeout
    by (auto simp: cf_agents_inv_def agents_timeout_def is_pending_def split: timer.splits)
next
  case FinalTimeout
  then show ?thesis using assms FinalTimeout
    by (auto simp: cf_agents_inv_def final_timeout_def is_pending_def split: timer.splits)
qed

lemma cf_agents_inv_run: "cf_agents_inv c \<Longrightarrow> cf_agents_inv (cf_run c evs)"
  unfolding cf_run_def by (induction evs arbitrary: c) (auto simp: cf_agents_inv_step)

lemma showFinal_flip:
  "\<not> showFinal c \<Longrightarrow> showFinal (cf_step c e) \<Longrightarrow>
     e = FinalTimeout \<and> (\<exists>due. finalTimer c = Pending due \<and> due \<le> cf_clock c)"
  by (cases e)
     (auto simp: cf_defs clearTimer_def Let_def split: timer.splits option.splits if_splits)

text \<open>
  C5. In every state the component reaches from its initial one, under any sequence of
  mounts, renders, unmounts, waits and timer callbacks: \<open>showFinal\<close> turns true only
  by the callback of the final timer, only while the current \<open>result\<close> is a complete
  response, and no earlier than 600 ms after the render that brought that result; a
  pending final timer is due exactly 600 ms after that render. While \<open>result\<close> is
  null (a pending or failed request) no final timer is pending and its callback does
  nothing. A render whose \<open>result\<close> is null, as the one a new request causes, leaves no
  final timer pending: one that was pending is cleared and never fires. A render in
  which \<open>isGenerating\<close> turns true resets both flags. While \<open>isGenerating\<close> is
  false no agents timer is pending either, so none is left over from a request that
  has ended when the next one starts.
\<close>

theorem final_reveal:
  assumes "c = cf_run cf_initial evs"
  shows "(\<not> showFinal c \<and> showFinal (cf_step c e) \<longrightarrow>
            e = FinalTimeout \<and> (\<exists>r. p_result (cur c) = Some r \<and> status r = complete) \<and>
            result_at c + 600 \<le> cf_clock c) \<and>
         (is_pending (finalTimer c) \<longrightarrow> finalTimer c = Pending (result_at c + 600)) \<and>
         (p_result (cur c) = None \<longrightarrow>
            \<not> is_pending (finalTimer c) \<and> cf_step c FinalTimeout = c) \<and>
         (mounted c \<and> p_result p = None \<longrightarrow>
            \<not> is_pending (finalTimer (cf_step c (Update p))) \<and>
            (is_pending (finalTimer c) \<longrightarrow> finalTimer (cf_step c (Update p)) = Cleared) \<and>
            cf_step (cf_step c (Update p)) FinalTimeout = cf_step c (Update p)) \<and>
         (mounted c \<and> p_isGenerating p \<and> \<not> p_isGenerating (cur c) \<longrightarrow>
            \<not> showFinal (cf_step c (Update p)) \<and> \<not> showAgents (cf_step c (Update p))) \<and>
         (\<not> p_isGenerating (cur c) \<longrightarrow>
            \<not> is_pending (agentsTimer c) \<and> cf_step c AgentsTimeout = c)"
proof -
  have inv: "cf_inv c"
    using assms by (simp add: cf_inv_run cf_inv_initial)
  have inv': "cf_inv (cf_step c (Update p))"
    using inv by (rule cf_inv_step)
  have ainv: "cf_agents_inv c"
    using assms by (simp add: cf_agents_inv_run cf_agents_inv_initial)
  have flip: "\<not> showFinal c \<and> showFinal (cf_step c e) \<longrightarrow>
            e = FinalTimeout \<and> (\<exists>r. p_result (cur c) = Some r \<and> status r = complete) \<and>
            result_at c + 600 \<le> cf_clock c"
  proof
    assume a: "\<not> showFinal c \<and> showFinal (cf_step c e)"
    then have "e = FinalTimeout \<and> (\<exists>due. finalTimer c = Pending due \<and> due \<le> cf_clock c)"
      using showFinal_flip [of c e] by simp
    then show "e = FinalTimeout \<and> (\<exists>r. p_result (cur c) = Some r \<and> status r = complete) \<and>
            result_at c + 600 \<le> cf_clock c"
      using inv by (auto simp: cf_inv_def is_pending_def)
  qed
  have pend: "is_pending (finalTimer c) \<longrightarrow> finalTimer c = Pending (result_at c + 600)"
    using inv by (simp add: cf_inv_def)
  have none: "p_result (cur c) = None \<longrightarrow>
            \<not> is_pending (finalTimer c) \<and> cf_step c FinalTimeout = c"
    using inv
    by (auto simp: cf_inv_def final_timeout_def is_pending_def split: timer.splits)
  have upd: "mounted c \<and> p_result p = None \<longrightarrow>
            \<not> is_pending (finalTimer (cf_step c (Update p))) \<and>
            (is_pending (finalTimer c) \<longrightarrow> finalTimer (cf_step c (Update p)) = Cleared) \<and>
            cf_step (cf_step c (Update p)) FinalTimeout = cf_step c (Update p)"
  proof
    assume a: "mounted c \<and> p_result p = None"
    have cur: "p_result (cur (cf_step c (Update p))) = None"
      using a by (simp add: cf_defs Let_def)
    then have np: "\<not> is_pending (finalTimer (cf_step c (Update p)))"
      using inv' by (auto simp: cf_inv_def)
    have cl: "finalTimer (cf_step c (Update p)) = Cleared" if "is_pending (finalTimer c)"
      using that a inv
      by (auto simp: cf_inv_def cf_defs Let_def is_pending_def clearTimer_def)
    have stay: "cf_step (cf_step c (Update p)) FinalTimeout = cf_step c (Update p)"
      using np by (simp add: final_timeout_def is_pending_def split: timer.splits)
    show "\<not> is_pending (finalTimer (cf_step c (Update p))) \<and>
            (is_pending (finalTimer c) \<longrightarrow> finalTimer (cf_step c (Update p)) = Cleared) \<and>
            cf_step (cf_step c (Update p)) FinalTimeout = cf_step c (Update p)"
      using np cl stay by simp
  qed
  have gen: "mounted c \<and> p_isGenerating p \<and> \<not> p_isGenerating (cur c) \<longrightarrow>
            \<not> showFinal (cf_step c (Update p)) \<and> \<not> showAgents (cf_step c (Update p))"
    by (auto simp: cf_defs Let_def split: option.splits)
  have idle: "\<not> p_isGenerating (cur c) \<longrightarrow>
            \<not> is_pending (agentsTimer c) \<and> cf_step c AgentsTimeout = c"
    using ainv
    by (auto simp: cf_agents_inv_def agents_timeout_def is_pending_def split: timer.splits)
  from flip pend none upd gen idle show ?thesis
    by (intro conjI)
qed

lemma cf_initial_eval:
  "cf_run cf_initial [Mount mounted_pending, Wait 300, AgentsTimeout, Update mounted_done, Wait 600] =
     \<lparr>showAgents = True, showFinal = False, agentsTimer = Fired, finalTimer = Pending 900,
      cur = mounted_done, mounted = True, cf_clock = 900, result_at = 300\<rparr>"
  by (simp add: cf_run_def cf_initial_def cf_defs Let_def mounted_pending_def mounted_done_def
      sample_response_def clearTimer_def)

lemma cf_early_eval:
  "cf_run cf_initial [Mount mounted_pending, Wait 300, AgentsTimeout, Update mounted_done, Wait 100] =
     \<lparr>showAgents = True, showFinal = False, agentsTimer = Fired, finalTimer = Pending 900,
      cur = mounted_done, mounted = True, cf_clock = 400, result_at = 300\<rparr>"
  by (simp add: cf_run_def cf_initial_def cf_defs Let_def mounted_pending_def mounted_done_def
      sample_response_def clearTimer_def)

lemma cf_failed_eval:
  "cf_run cf_initial [Mount mounted_pending, Wait 300, AgentsTimeout, Update mounted_failed, Wait 600] =
     \<lparr>showAgents = True, showFinal = False, agentsTimer = Fired, finalTimer = NotSet,
      cur = mounted_failed, mounted = True, cf_clock = 900, result_at = 0\<rparr>"
  by (simp add: cf_run_def cf_initial_def cf_defs Let_def mounted_pending_def mounted_failed_def
      clearTimer_def)

theorem final_reveal_witness:
  "\<not> showFinal (cf_run cf_initial
       [Mount mounted_pending, Wait 300, AgentsTimeout, Update mounted_done, Wait 600]) \<and>
   showFinal (cf_step (cf_run cf_initial
       [Mount mounted_pending, Wait 300, AgentsTimeout, Update mounted_done, Wait 600]) FinalTimeout) \<and>
   reveal_phase (cf_step (cf_run cf_initial
       [Mount mounted_pending, Wait 300, AgentsTimeout, Update mounted_done, Wait 600]) FinalTimeout)
     = FinalVisible \<and>
   result_at (cf_run cf_initial
       [Mount mounted_pending, Wait 300, AgentsTimeout, Update mounted_done, Wait 600]) + 600
     \<le> cf_clock (cf_run cf_initial
       [Mount mounted_pending, Wait 300, AgentsTimeout, Update mounted_done, Wait 600]) \<and>
   is_pending (finalTimer (cf_run cf_initial
       [Mount mounted_pending, Wait 300, AgentsTimeout, Update mounted_done, Wait 100])) \<and>
   mounted (cf_run cf_initial
       [Mount mounted_pending, Wait 300, AgentsTimeout, Update mounted_done, Wait 100]) \<and>
   p_result mounted_pending = None \<and> p_isGenerating mounted_pending \<and>
   \<not> p_isGenerating (cur (cf_run cf_initial
       [Mount mounted_pending, Wait 300, AgentsTimeout, Update mounted_done, Wait 100])) \<and>
   finalTimer (cf_step (cf_run cf_initial
       [Mount mounted_pending, Wait 300, AgentsTimeout, Update mounted_done, Wait 100])
       (Update mounted_pending)) = Cleared \<and>
   p_result (cur (cf_run cf_initial
       [Mount mounted_pending, Wait 300, AgentsTimeout, Update mounted_failed, Wait 600])) = None \<and>
   \<not> showFinal (cf_step (cf_run cf_initial
       [Mount mounted_pending, Wait 300, AgentsTimeout, Update mounted_failed, Wait 600]) FinalTimeout)"
  using final_reveal [of _ "[Mount mounted_pending, Wait 300, AgentsTimeout, Update mounted_done, Wait 600]"
      FinalTimeout mounted_pending, OF refl]
    final_reveal [of _ "[Mount mounted_pending, Wait 300, AgentsTimeout, Update mounted_done, Wait 100]"
      FinalTimeout mounted_pending, OF refl]
    final_reveal [of _ "[Mount mounted_pending, Wait 300, AgentsTimeout, Update mounted_failed, Wait 600]"
      FinalTimeout mounted_pending, OF refl]
  unfolding cf_initial_eval cf_early_eval cf_failed_eval
  by (simp add: cf_defs Let_def reveal_phase_def is_pending_def clearTimer_def
      mounted_pending_def mounted_done_def mounted_failed_def sample_response_def)

section \<open>Properties of the text transforms\<close>

declare replace_all.simps [simp del]

lemma match_lits:
  "match_here (lits p @ r) b s =
     (if tag_at p s then match_here r (b \<and> p = []) (drop (length p) s) else None)"
proof (induction p arbitrary: s b)
  case Nil
  then show ?case by (simp add: lits_def)
next
  case (Cons c ps)
  then show ?case by (cases s) (auto simp: lits_def)
qed

lemma match_lits_end:
  "match_here (lits p) b s = (if tag_at p s then Some (drop (length p) s) else None)"
  using match_lits [of p "[]" b s] by simp

lemma lazy_any:
  "p \<noteq> [] \<Longrightarrow>
   match_here (LazyStar (Either Space NonSpace) # lits p) b s =
     map_option (\<lambda>k. drop (k + length p) s) (find_tag p s)"
proof (induction s arbitrary: b)
  case Nil
  then show ?case by (cases p) (simp_all add: match_lits_end)
next
  case (Cons x xs)
  then show ?case
    by (cases p) (auto simp: match_lits_end option.map_comp comp_def)
qed

lemma match_think:
  "match_here think_re b s =
     (if tag_at ''<think>'' s
      then map_option (\<lambda>k. drop (7 + k + 8) s) (find_tag ''</think>'' (drop 7 s))
      else None)"
proof -
  have l1: "length ''<think>'' = 7" and l2: "length ''</think>'' = 8"
    by simp_all
  have "match_here think_re b s =
      (if tag_at ''<think>'' s
       then match_here (LazyStar (Either Space NonSpace) # lits ''</think>'') False
              (drop (length ''<think>'') s)
       else None)"
    unfolding think_re_def by (simp only: match_lits append_Cons append_Nil) simp
  also have "\<dots> =
      (if tag_at ''<think>'' s
       then map_option (\<lambda>k. drop (k + length ''</think>'') (drop (length ''<think>'') s))
              (find_tag ''</think>'' (drop (length ''<think>'') s))
       else None)"
    by (subst lazy_any) simp_all
  also have "\<dots> =
      (if tag_at ''<think>'' s
       then map_option (\<lambda>k. drop (7 + k + 8) s) (find_tag ''</think>'' (drop 7 s))
       else None)"
    unfolding l1 l2 by (simp add: ac_simps)
  finally show ?thesis .
qed

lemma tag_at_length: "tag_at p s \<Longrightarrow> length p \<le> length s"
  by (induction p s rule: tag_at.induct) auto

lemma replace_all_think_Nil: "replace_all think_re b [] = []"
  by (subst replace_all.simps) (simp add: match_think)

lemma replace_all_think_Cons:
  "replace_all think_re b (x # xs) =
     (if tag_at ''<think>'' (x # xs) then
        (case find_tag ''</think>'' (drop 7 (x # xs)) of
           Some k \<Rightarrow> replace_all think_re False (drop (7 + k + 8) (x # xs))
         | None \<Rightarrow> x # replace_all think_re False xs)
      else x # replace_all think_re False xs)"
proof (cases "tag_at ''<think>'' (x # xs)")
  case no_tag: False
  then have "match_here think_re b (x # xs) = None"
    by (simp only: match_think if_False)
  with no_tag show ?thesis
    by (subst replace_all.simps) (simp only: option.case list.case if_False)
next
  case tag: True
  show ?thesis
  proof (cases "find_tag ''</think>'' (drop 7 (x # xs))")
    case None
    with tag have "match_here think_re b (x # xs) = None"
      by (simp only: match_think if_True option.map)
    with tag None show ?thesis
      by (subst replace_all.simps) (simp only: option.case list.case if_True)
  next
    case (Some k)
    with tag have "match_here think_re b (x # xs) = Some (drop (7 + k + 8) (x # xs))"
      by (simp only: match_think if_True option.map)
    moreover have "length (drop (7 + k + 8) (x # xs)) < length (x # xs)"
      by simp
    ultimately show ?thesis
      using tag Some
      by (subst replace_all.simps) (simp only: option.case list.case if_True)
  qed
qed

lemma replace_all_think: "replace_all think_re b s = strip_spans s"
proof (induction s arbitrary: b rule: strip_spans.induct)
  case 1
  show ?case by (simp add: replace_all_think_Nil)
next
  case (2 x xs)
  note IH = this
  show ?case
  proof (cases "tag_at ''<think>'' (x # xs)")
    case no_tag: False
    have "replace_all think_re False xs = strip_spans xs"
      by (rule IH(3) [OF no_tag])
    with no_tag show ?thesis
      by (simp only: replace_all_think_Cons strip_spans.simps if_False)
  next
    case tag: True
    show ?thesis
    proof (cases "find_tag ''</think>'' (drop 7 (x # xs))")
      case None
      have "replace_all think_re False xs = strip_spans xs"
        by (rule IH(1) [OF tag None])
      with tag None show ?thesis
        by (simp only: replace_all_think_Cons strip_spans.simps if_True option.case)
    next
      case (Some k)
      have "replace_all think_re False (drop (7 + k + 8) (x # xs)) =
            strip_spans (drop (7 + k + 8) (x # xs))"
        by (rule IH(2) [OF tag Some])
      with tag Some show ?thesis
        by (simp only: replace_all_think_Cons strip_spans.simps if_True option.case)
    qed
  qed
qed

lemma strip_spans_no_span: "no_span s \<Longrightarrow> strip_spans s = s"
  by (induction s) auto

text \<open>
  C7. \<open>removeThinkTags\<close> computes what the specification words: scanning from the
  left, every opening tag (in any letter case) that has a closing tag somewhere after
  it is removed together with everything up to and including the first such closing
  tag, line breaks included, and the scan goes on behind it; the result is trimmed. A
  text in which no opening tag is followed by a closing tag is returned trimmed and
  otherwise unchanged.
\<close>

theorem removeThinkTags_refines:
  "removeThinkTags text = stripReasoningMarkup text \<and>
   (no_span text \<longrightarrow> removeThinkTags text = trim text)"
  by (simp add: removeThinkTags_def stripReasoningMarkup_def replace_all_think strip_spans_no_span)

lemma think_examples:
  "removeThinkTags (js ''a<think>x</think>b<think>y</think>c'') = js ''abc''"
  "removeThinkTags multiline_example = js ''Hi there''"
  "no_span (js ''  a </think> plain <think> draft  '')"
  "removeThinkTags (js ''  a </think> plain <think> draft  '') = js ''a </think> plain <think> draft''"
  by code_simp+

theorem removeThinkTags_refines_witness:
  "no_span (js ''  a </think> plain <think> draft  '') \<and>
   removeThinkTags (js ''  a </think> plain <think> draft  '') =
     trim (js ''  a </think> plain <think> draft  '') \<and>
   removeThinkTags (js ''  a </think> plain <think> draft  '') = js ''a </think> plain <think> draft'' \<and>
   stripReasoningMarkup (js ''a<think>x</think>b<think>y</think>c'') = js ''abc'' \<and>
   stripReasoningMarkup multiline_example = js ''Hi there''"
proof -
  have a: "removeThinkTags (js ''  a </think> plain <think> draft  '') =
     trim (js ''  a </think> plain <think> draft  '')"
    using removeThinkTags_refines [of "js ''  a </think> plain <think> draft  ''"]
      think_examples(3) by blast
  have b: "stripReasoningMarkup (js ''a<think>x</think>b<think>y</think>c'') = js ''abc''"
    using removeThinkTags_refines [of "js ''a<think>x</think>b<think>y</think>c''"]
      think_examples(1) by metis
  have c: "stripReasoningMarkup multiline_example = js ''Hi there''"
    using removeThinkTags_refines [of multiline_example] think_examples(2) by metis
  show ?thesis
    using a b c think_examples(3,4) by blast
qed

lemma is_space_nl: "is_space 0x0A"
  by (simp add: is_space_def)

lemma ci_eq_nl: "ci_eq (CHR 0x0A) x = (x = 0x0A)"
  by (auto simp: ci_eq_def ascii_upper_def split: if_splits)

lemma star_space_eol:
  "match_here [Star Space, Eol] b t = (if list_all is_space t then Some [] else None)"
  by (induction t arbitrary: b) auto

lemma match_fence_tail:
  "match_here (lits ''```'' @ [Star Space, Eol]) b t =
     (if closing_fence t then Some [] else None)"
proof -
  have "length ''```'' = 3" by simp
  then show ?thesis
    by (simp only: match_lits star_space_eol closing_fence_def) simp
qed

lemma match_close_Nil: "match_here fence_close_re b [] = None"
  unfolding fence_close_re_def
  by (simp only: append_Cons append_Nil match_here.simps match_fence_tail)
     (simp add: closing_fence_def)

lemma match_close_Cons:
  "match_here fence_close_re b (x # xs) =
     (if closing_fence (x # xs) \<or> x = 0x0A \<and> closing_fence xs then Some [] else None)"
proof -
  have nl: "\<not> closing_fence (0x0A # xs)"
    by (simp add: closing_fence_def ci_eq_def ascii_upper_def)
  show ?thesis
    unfolding fence_close_re_def
    apply (simp only: append_Cons append_Nil match_here.simps match_fence_tail cls_match.simps
        ci_eq_nl)
    using nl apply auto
    done
qed

lemma replace_first_close: "replace_first fence_close_re b s = drop_trailing_fence s"
  by (induction s arbitrary: b) (simp_all add: match_close_Nil match_close_Cons)

lemma star_space_opt:
  "match_here [Star Space, Opt (Lit (CHR 0x0A))] b t = Some (dropWhile is_space t)"
  by (induction t arbitrary: b) (auto simp: ci_eq_nl is_space_nl)

lemma match_open:
  "match_here fence_open_re b s =
     (if b \<and> tag_at ''```json'' s then Some (dropWhile is_space (drop 7 s)) else None)"
proof -
  have "length ''```json'' = 7" by simp
  then show ?thesis
    unfolding fence_open_re_def
    by (simp only: append_Cons append_Nil match_here.simps match_lits star_space_opt) simp
qed

lemma replace_first_open_False: "replace_first fence_open_re False s = s"
  by (induction s) (simp_all add: match_open)

lemma replace_first_open: "replace_first fence_open_re True s = drop_leading_fence s"
  by (cases s) (simp_all add: match_open drop_leading_fence_def replace_first_open_False
      del: tag_at.simps)

lemma stripMarkdownCodeBlocks_eq: "stripMarkdownCodeBlocks text = strip_fences text"
  by (simp add: stripMarkdownCodeBlocks_def strip_fences_def replace_first_open
      replace_first_close)

lemma strip_example: "stripMarkdownCodeBlocks fenced_example = example_body"
  by code_simp

lemma decode_example:
  "JSON_decode example_body =
     Inr (JObject [(js ''final_email'', JString (js ''Hi'')),
                   (js ''reasoning'', JString (js ''why''))])"
  by code_simp

lemma decode_plain:
  "JSON_decode (stripMarkdownCodeBlocks (js ''plain text, no fences'')) =
     Inl (ErrorObject (js ''Unexpected token''))"
  by code_simp

lemma strip_plain:
  "stripMarkdownCodeBlocks (js ''plain text, no fences'') = js ''plain text, no fences''"
  by code_simp

lemma decode_null: "JSON_decode (stripMarkdownCodeBlocks (js ''null'')) = Inr JNull"
  by code_simp

text \<open>
  C6. \<open>stripMarkdownCodeBlocks\<close> drops a leading \<^verbatim>\<open>```json\<close> opener (in any letter
  case, with the whitespace after it) and a trailing fence (an optional line feed,
  \<^verbatim>\<open>```\<close>, whitespace to the end), and trims. Whatever \<open>JSON.parse\<close> is: when it
  decodes the stripped text to an object, \<open>parseJsonWrapper\<close> returns that object's
  \<open>final_email\<close> and \<open>reasoning\<close> with \<open>parsed\<close> true; when it throws, the stripped
  text comes back as \<open>email\<close> with \<open>parsed\<close> false. For the fenced example of the
  specification the result is \<open>Hi\<close>, \<open>why\<close>, true.
\<close>

theorem parseJsonWrapper_recovers:
  "stripMarkdownCodeBlocks content = strip_fences content \<and>
   (JSON_parse (stripMarkdownCodeBlocks content) = Inr (JObject kvs) \<longrightarrow>
      parseJsonWrapper JSON_parse content =
        Inr \<lparr>email = map_of (rev kvs) (js ''final_email''),
             reasoning = map_of (rev kvs) (js ''reasoning''), parsed = True\<rparr>) \<and>
   (JSON_parse (stripMarkdownCodeBlocks content) = Inl e \<longrightarrow>
      parseJsonWrapper JSON_parse content =
        Inr \<lparr>email = Some (JString (stripMarkdownCodeBlocks content)), reasoning = None,
             parsed = False\<rparr>) \<and>
   (JSON_parse example_body =
      Inr (JObject [(js ''final_email'', JString (js ''Hi'')),
                    (js ''reasoning'', JString (js ''why''))]) \<longrightarrow>
      parseJsonWrapper JSON_parse fenced_example =
        Inr \<lparr>email = Some (JString (js ''Hi'')), reasoning = Some (JString (js ''why'')),
             parsed = True\<rparr>)"
proof -
  have neq: "js ''reasoning'' \<noteq> js ''final_email''"
    by (simp add: js_def)
  show ?thesis
    using neq
    by (simp add: stripMarkdownCodeBlocks_eq [symmetric] parseJsonWrapper_def strip_example
        Let_def)
qed

theorem parseJsonWrapper_recovers_witness:
  "JSON_decode example_body =
      Inr (JObject [(js ''final_email'', JString (js ''Hi'')),
                    (js ''reasoning'', JString (js ''why''))]) \<and>
   parseJsonWrapper JSON_decode fenced_example =
     Inr \<lparr>email = Some (JString (js ''Hi'')), reasoning = Some (JString (js ''why'')),
          parsed = True\<rparr> \<and>
   JSON_decode (stripMarkdownCodeBlocks (js ''plain text, no fences'')) =
     Inl (ErrorObject (js ''Unexpected token'')) \<and>
   parseJsonWrapper JSON_decode (js ''plain text, no fences'') =
     Inr \<lparr>email = Some (JString (js ''plain text, no fences'')), reasoning = None,
          parsed = False\<rparr>"
  using parseJsonWrapper_recovers [of fenced_example JSON_decode
      "[(js ''final_email'', JString (js ''Hi'')), (js ''reasoning'', JString (js ''why''))]"]
    parseJsonWrapper_recovers [of "js ''plain text, no fences''" JSON_decode _
      "ErrorObject (js ''Unexpected token'')"]
    decode_example decode_plain strip_plain
  by (simp add: strip_example)

text \<open>
  C4. Whatever \<open>JSON.parse\<close> does, \<open>parseJsonWrapper\<close> returns an object and throws
  nothing. When \<open>JSON.parse\<close> throws, and also when it yields \<open>null\<close> so that reading
  \<open>final_email\<close> throws, the \<open>catch\<close> branch returns the fence-stripped text with
  \<open>parsed\<close> false.
\<close>

theorem parseJsonWrapper_never_raises:
  "(\<exists>r. parseJsonWrapper JSON_parse content = Inr r) \<and>
   (JSON_parse (stripMarkdownCodeBlocks content) = Inl e \<or>
    JSON_parse (stripMarkdownCodeBlocks content) = Inr JNull \<longrightarrow>
      parseJsonWrapper JSON_parse content =
        Inr \<lparr>email = Some (JString (stripMarkdownCodeBlocks content)), reasoning = None,
             parsed = False\<rparr>)"
  by (auto simp: parseJsonWrapper_def Let_def split: sum.splits)

theorem parseJsonWrapper_never_raises_witness:
  "JSON_decode (stripMarkdownCodeBlocks (js ''not json {'')) =
     Inl (ErrorObject (js ''Unexpected token'')) \<and>
   parseJsonWrapper JSON_decode (js ''not json {'') =
     Inr \<lparr>email = Some (JString (stripMarkdownCodeBlocks (js ''not json {''))),
          reasoning = None, parsed = False\<rparr> \<and>
   JSON_decode (stripMarkdownCodeBlocks (js ''null'')) = Inr JNull \<and>
   parseJsonWrapper JSON_decode (js ''null'') =
     Inr \<lparr>email = Some (JString (stripMarkdownCodeBlocks (js ''null''))),
          reasoning = None, parsed = False\<rparr>"
proof -
  have a: "JSON_decode (stripMarkdownCodeBlocks (js ''not json {'')) =
     Inl (ErrorObject (js ''Unexpected token''))"
    by code_simp
  show ?thesis
    using parseJsonWrapper_never_raises [of JSON_decode "js ''not json {''"
        "ErrorObject (js ''Unexpected token'')"]
      parseJsonWrapper_never_raises [of JSON_decode "js ''null''"] a decode_null
    by simp
qed

end
